theory Spec2Isabelle
  imports Main "HOL-Library.Word" "HOL-Library.Multiset"
begin

unbundle bit_operations_syntax

section \<open>Data model\<close>

text \<open>
  The driver for the Digilent AnalogDiscovery2: \<^verbatim>\<open>protocol.h\<close>, the protocol
  functions (trigger decoding, start, the data callback, scan, open, close) and
  \<^verbatim>\<open>api.c\<close> (config\_set, dev\_acquisition\_start). C \<^verbatim>\<open>int\<close> values that are
  stored or shifted are 32-bit words; \<^verbatim>\<open>uint64_t\<close> is a 64-bit word.
\<close>

type_synonym cint = "32 word"
type_synonym HDWF = "32 word"

text \<open>\<^verbatim>\<open>struct dev_context\<close> of protocol.h.\<close>

record dev_context =
  enum_idx :: cint
  is_opened :: bool
  hdwf :: HDWF
  cur_samplerate :: "64 word"

text \<open>
  \<^verbatim>\<open>struct sr_channel\<close> as \<^verbatim>\<open>sr_channel_new(sdi, j, SR_CHANNEL_LOGIC, TRUE, name)\<close>
  fills it: index, enabled flag and name (all channels of this driver are logic channels).
\<close>

record sr_channel =
  index :: int
  enabled :: bool
  name :: string

text \<open>
  The values of \<^verbatim>\<open>match->match\<close> that the switch of the decoder tells apart; every
  other value of the field takes the \<^verbatim>\<open>default\<close> branch.
\<close>

datatype sr_trigger_matches =
    SR_TRIGGER_ZERO
  | SR_TRIGGER_ONE
  | SR_TRIGGER_RISING
  | SR_TRIGGER_FALLING
  | SR_TRIGGER_EDGE
  | SR_TRIGGER_OTHER int

record sr_trigger_match =
  channel :: sr_channel
  match :: sr_trigger_matches

record sr_trigger_stage =
  stage :: int
  matches :: "sr_trigger_match list"

record sr_trigger =
  trigger_name :: string
  stages :: "sr_trigger_stage list"

text \<open>The four \<^verbatim>\<open>int\<close> masks that the decoder writes through its pointer arguments.\<close>

record masks =
  low_mask :: cint
  high_mask :: cint
  rise_mask :: cint
  fall_mask :: cint


section \<open>Observable effects and abnormal termination\<close>

text \<open>
  Everything the driver does besides returning is recorded as a trace of events, in the
  order of the calls: log lines (by level, with the format string of the call, less its
  trailing newline), calls
  into the vendor SDK, and calls into the session. A failed \<^verbatim>\<open>assert\<close> aborts the
  process, so the functions return either a crash or a value, together with the trace up
  to that point. Assertions are taken as compiled in (no \<^verbatim>\<open>NDEBUG\<close>).
\<close>

datatype crash =
    Assert_chan_no
  | Assert_samplerate
  | Null_dereference
  | Undefined_atoi
  | Undefined_int_overflow
  | Undefined_array_index
  | Payload_overrun

datatype loglevel = SPEW | WARN | ERR

datatype acqmode = acqmodeRecord

datatype trigsrc = trigsrcDetectorDigitalIn

text \<open>The functions of the vendor SDK that the driver calls, with their arguments.\<close>

datatype dwf_call =
    FDwfDeviceOpen cint
  | FDwfDeviceClose HDWF
  | FDwfDigitalInAcquisitionModeSet HDWF acqmode
  | FDwfDigitalInDividerSet HDWF "32 word"
  | FDwfDigitalInSampleFormatSet HDWF int
  | FDwfDigitalInTriggerPositionSet HDWF int
  | FDwfDigitalInTriggerSourceSet HDWF trigsrc
  | FDwfDigitalInTriggerSet HDWF cint cint cint cint
  | FDwfDigitalInConfigure HDWF bool bool
  | FDwfDigitalInStatusRecord HDWF
  | FDwfDigitalInStatus HDWF bool
  | FDwfDigitalInStatusData HDWF int

text \<open>\<^verbatim>\<open>struct sr_datafeed_logic\<close> without the payload bytes.\<close>

record sr_datafeed_logic =
  length_bytes :: "64 word"
  unitsize :: "16 word"

datatype event =
    Log loglevel string
  | Dwf dwf_call bool
  | Session_source_add int
  | Session_send_df_header
  | Session_send_logic sr_datafeed_logic

type_synonym 'a outcome = "(crash + 'a) \<times> event list"

section \<open>The C library's atoi\<close>

text \<open>
  \<^verbatim>\<open>atoi\<close> skips white space, reads an optional sign and the decimal digits that
  follow, and stops at the first other character. The C standard leaves the behaviour
  undefined when the value does not fit an \<^verbatim>\<open>int\<close>: that case is \<open>None\<close>.
\<close>

definition isspace :: "char \<Rightarrow> bool" where
  "isspace c \<longleftrightarrow> (of_char c :: nat) \<in> {32, 9, 10, 11, 12, 13}"

definition isdigit :: "char \<Rightarrow> bool" where
  "isdigit c \<longleftrightarrow> 48 \<le> (of_char c :: nat) \<and> (of_char c :: nat) \<le> 57"

fun atoi_digits :: "int \<Rightarrow> string \<Rightarrow> int" where
  "atoi_digits acc [] = acc"
| "atoi_digits acc (c # cs) =
     (if isdigit c then atoi_digits (10 * acc + (int (of_char c) - 48)) cs else acc)"

definition atoi :: "string \<Rightarrow> int option" where
  "atoi s =
     (let t = dropWhile isspace s;
          v = (case t of
                 [] \<Rightarrow> 0
               | c # cs \<Rightarrow>
                   if c = CHR ''-'' then - atoi_digits 0 cs
                   else if c = CHR ''+'' then atoi_digits 0 cs
                   else atoi_digits 0 t)
      in if - (2 ^ 31) \<le> v \<and> v < 2 ^ 31 then Some v else None)"

section \<open>decode\_trigger\<close>

definition zero_masks :: masks where
  "zero_masks = \<lparr>low_mask = 0, high_mask = 0, rise_mask = 0, fall_mask = 0\<rparr>"

text \<open>
  The \<^verbatim>\<open>switch (match->match)\<close>. \<^verbatim>\<open>SR_TRIGGER_EDGE\<close> sets the rise bit and falls
  through to the case of \<^verbatim>\<open>SR_TRIGGER_FALLING\<close>; the \<^verbatim>\<open>default\<close> branch logs an
  error and changes nothing.
\<close>

fun switch_match :: "sr_trigger_matches \<Rightarrow> nat \<Rightarrow> masks \<Rightarrow> masks \<times> event list" where
  "switch_match SR_TRIGGER_ZERO chan_no m =
     (m\<lparr>low_mask := low_mask m OR push_bit chan_no 1\<rparr>, [])"
| "switch_match SR_TRIGGER_ONE chan_no m =
     (m\<lparr>high_mask := high_mask m OR push_bit chan_no 1\<rparr>, [])"
| "switch_match SR_TRIGGER_RISING chan_no m =
     (m\<lparr>rise_mask := rise_mask m OR push_bit chan_no 1\<rparr>, [])"
| "switch_match SR_TRIGGER_EDGE chan_no m =
     (m\<lparr>rise_mask := rise_mask m OR push_bit chan_no 1,
        fall_mask := fall_mask m OR push_bit chan_no 1\<rparr>, [])"
| "switch_match SR_TRIGGER_FALLING chan_no m =
     (m\<lparr>fall_mask := fall_mask m OR push_bit chan_no 1\<rparr>, [])"
| "switch_match (SR_TRIGGER_OTHER v) chan_no m =
     (m, [Log ERR ''Unhandled trigger: 0x%x''])"

text \<open>
  The body of the inner loop for one match: the channel number is \<^verbatim>\<open>atoi\<close> of the
  channel's name, the assertion checks its range, then the switch.
\<close>

definition decode_match :: "sr_trigger_match \<Rightarrow> masks \<Rightarrow> masks outcome" where
  "decode_match x m =
     (case atoi (name (channel x)) of
        None \<Rightarrow> (Inl Undefined_atoi, [])
      | Some chan_no \<Rightarrow>
          if \<not> (chan_no \<ge> 0 \<and> chan_no < 16) then (Inl Assert_chan_no, [])
          else (case switch_match (match x) (nat chan_no) m of
                  (m', ev) \<Rightarrow>
                    (Inr m', Log SPEW ''  match channel: %s''
                             # Log SPEW ''  match match:   %d'' # ev)))"

text \<open>The inner loop \<^verbatim>\<open>while (mlist != NULL)\<close>.\<close>

fun match_loop :: "sr_trigger_match list \<Rightarrow> masks \<Rightarrow> masks outcome" where
  "match_loop [] m = (Inr m, [])"
| "match_loop (x # mlist) m =
     (case decode_match x m of
        (Inl e, ev) \<Rightarrow> (Inl e, ev)
      | (Inr m', ev) \<Rightarrow> (case match_loop mlist m' of (r, evs) \<Rightarrow> (r, ev @ evs)))"

text \<open>
  The outer loop \<^verbatim>\<open>while (slist != NULL)\<close>. The variable \<^verbatim>\<open>stage\<close> is assigned
  once, before the loop, from the first list element, and the loop body only advances
  \<^verbatim>\<open>slist\<close>: every iteration walks the matches of that same \<^verbatim>\<open>stage\<close>. After
  advancing, a warning is logged when a further element remains.
\<close>

fun stage_loop :: "sr_trigger_stage \<Rightarrow> sr_trigger_stage list \<Rightarrow> masks \<Rightarrow> masks outcome" where
  "stage_loop st [] m = (Inr m, [])"
| "stage_loop st (s # slist) m =
     (case match_loop (matches st) m of
        (Inl e, ev) \<Rightarrow> (Inl e, Log SPEW '' stage no 0x%x'' # ev)
      | (Inr m', ev) \<Rightarrow>
          (case stage_loop st slist m' of
             (r, evs) \<Rightarrow>
               (r, Log SPEW '' stage no 0x%x'' # ev
                   @ (if slist \<noteq> []
                      then [Log WARN ''Staged triggers are not supported with this device!'']
                      else [])
                   @ evs)))"

text \<open>
  \<^verbatim>\<open>decode_trigger\<close>: the masks start at zero; without a trigger they stay zero. With
  a trigger, \<^verbatim>\<open>slist->data\<close> is read before the loop tests \<^verbatim>\<open>slist\<close>, so an empty
  stage list dereferences a null pointer.
\<close>

definition decode_trigger :: "sr_trigger option \<Rightarrow> masks outcome" where
  "decode_trigger trigger =
     (case trigger of
        None \<Rightarrow> (Inr zero_masks, [Log SPEW ''trigger is NULL''])
      | Some t \<Rightarrow>
          (case stages t of
             [] \<Rightarrow> (Inl Null_dereference, [])
           | st # _ \<Rightarrow>
               (case stage_loop st (stages t) zero_masks of
                  (r, evs) \<Rightarrow> (r, Log SPEW ''trigger with name %s found'' # evs))))"

text \<open>The masks an outcome carries, if it is not a crash.\<close>

definition masks_of :: "masks outcome \<Rightarrow> masks option" where
  "masks_of r = (case fst r of Inl e \<Rightarrow> None | Inr m \<Rightarrow> Some m)"


section \<open>The vendor SDK as an environment\<close>

text \<open>
  Modelled from the spec: \<^verbatim>\<open>dwf.h\<close> of the vendor SDK is not among the sources. The
  coarse acquisition states are the ones the specification and the driver name
  (Config, Armed, Prefill, Wait, Done) and the SDK's remaining states.
\<close>

datatype DwfState =
    DwfStateReady
  | DwfStateConfig
  | DwfStatePrefill
  | DwfStateArmed
  | DwfStateWait
  | DwfStateTriggered
  | DwfStateDone

text \<open>
  What the SDK answers: the \<^verbatim>\<open>BOOL\<close> each call returns, the value
  \<^verbatim>\<open>FDwfDeviceOpen\<close> leaves in the handle (from the enumeration index and the
  handle's old content), the three counters of \<^verbatim>\<open>FDwfDigitalInStatusRecord\<close>, the
  state of \<^verbatim>\<open>FDwfDigitalInStatus\<close>, and the enumeration data.
\<close>

record dwf_sdk =
  dwf_ret :: "dwf_call \<Rightarrow> bool"
  dwf_open_handle :: "cint \<Rightarrow> HDWF \<Rightarrow> HDWF"
  dwf_status_record :: "HDWF \<Rightarrow> cint \<times> cint \<times> cint"
  dwf_status :: "HDWF \<Rightarrow> DwfState"
  dwf_enum :: int
  dwf_enum_device_name :: "int \<Rightarrow> string"
  dwf_version :: string
  dwf_enum_sn :: "int \<Rightarrow> string"

text \<open>One SDK call, recorded with the result the SDK gave.\<close>

definition call :: "dwf_sdk \<Rightarrow> dwf_call \<Rightarrow> event" where
  "call sdk c = Dwf c (dwf_ret sdk c)"

section \<open>Device instances\<close>

datatype sr_error = SR_OK | SR_ERR_ARG | SR_ERR_BUG | SR_ERR_NA | SR_ERR_DEV_CLOSED

datatype sr_dev_inst_status = SR_ST_INITIALIZING

record sr_channel_group =
  group_name :: string
  channels :: "sr_channel list"

text \<open>The fields of \<^verbatim>\<open>struct sr_dev_inst\<close> that the driver fills or reads.\<close>

record sr_dev_inst =
  status :: sr_dev_inst_status
  vendor :: string
  model :: string
  version :: string
  serial_num :: string
  priv :: "dev_context option"
  channel_groups :: "sr_channel_group list"

section \<open>digilent\_analogdiscovery2\_receive\_data\<close>

text \<open>The size of the local array \<^verbatim>\<open>char payload[1024*1024]\<close>.\<close>

definition payload_size :: int where
  "payload_size = 1024 * 1024"

text \<open>
  The data callback. It returns \<^verbatim>\<open>TRUE\<close> at each of its \<^verbatim>\<open>return\<close> statements.
  The byte count \<^verbatim>\<open>cAvail*2\<close> is computed in \<^verbatim>\<open>int\<close>, the SDK is asked to write
  that many bytes into \<^verbatim>\<open>payload\<close>, and the count is converted to the 64-bit
  \<^verbatim>\<open>length\<close> of the packet. The source tests neither the multiplication nor the
  capacity of the array. Where the product overflows \<^verbatim>\<open>int\<close>, or the SDK is told
  to write past the end of \<^verbatim>\<open>payload\<close>, the C program has no defined behaviour:
  what the process then does depends on the platform and on how far the write goes,
  from a packet sent as if nothing had happened to a memory fault. The two crash values
  stand for these cases by convention; whatever is stated about a call with a byte count
  within the array does not depend on them.
\<close>

definition digilent_analogdiscovery2_receive_data ::
  "dwf_sdk \<Rightarrow> sr_dev_inst option \<Rightarrow> bool outcome" where
  "digilent_analogdiscovery2_receive_data sdk cb_data =
     (case cb_data of
        None \<Rightarrow> (Inr True, [])
      | Some sdi \<Rightarrow>
          (case priv sdi of
             None \<Rightarrow> (Inr True, [])
           | Some devc \<Rightarrow>
               (case dwf_status_record sdk (hdwf devc) of
                  (cAvail, cLost, cCorrupt) \<Rightarrow>
                    let ev1 = [call sdk (FDwfDigitalInStatusRecord (hdwf devc)),
                               Log SPEW ''cAvail = %d'']
                    in
                    if cCorrupt \<noteq> 0 \<or> cLost \<noteq> 0
                    then (Inr True,
                          ev1 @ [Log ERR ''_recevice_data() - samples lost=%d, samples corrupt=%d''])
                    else
                      let sts = dwf_status sdk (hdwf devc);
                          ev2 = ev1 @ [call sdk (FDwfDigitalInStatus (hdwf devc) True)]
                      in
                      if cAvail = 0
                         \<or> (sts = DwfStateConfig \<or> sts = DwfStateArmed \<or> sts = DwfStatePrefill)
                      then (Inr True, ev2 @ [Log SPEW ''Waiting for trigger''])
                      else if \<not> (- (2 ^ 31) \<le> sint cAvail * 2 \<and> sint cAvail * 2 < 2 ^ 31)
                      then (Inl Undefined_int_overflow, ev2)
                      else if sint cAvail * 2 > payload_size
                      then (Inl Payload_overrun,
                            ev2 @ [call sdk (FDwfDigitalInStatusData (hdwf devc) (sint cAvail * 2))])
                      else (Inr True,
                            ev2 @ [call sdk (FDwfDigitalInStatusData (hdwf devc) (sint cAvail * 2)),
                                   Session_send_logic
                                     \<lparr>length_bytes = word_of_int (sint cAvail * 2),
                                        unitsize = 2\<rparr>]))))"

section \<open>digilent\_analogdiscovery2\_start and dev\_acquisition\_start\<close>

text \<open>
  \<^verbatim>\<open>digilent_analogdiscovery2_start\<close> returns nothing and looks at no result of the SDK.
  It decodes the trigger first, sets the acquisition mode, asserts that the sample rate
  is not zero, and makes the remaining six calls.
\<close>

definition digilent_analogdiscovery2_start ::
  "dwf_sdk \<Rightarrow> dev_context \<Rightarrow> sr_trigger option \<Rightarrow> unit outcome" where
  "digilent_analogdiscovery2_start sdk devc trigger =
     (case decode_trigger trigger of
        (Inl e, ev) \<Rightarrow> (Inl e, ev)
      | (Inr m, ev) \<Rightarrow>
          let ev1 = ev @ [call sdk (FDwfDigitalInAcquisitionModeSet (hdwf devc) acqmodeRecord)]
          in
          if \<not> (cur_samplerate devc \<noteq> 0) then (Inl Assert_samplerate, ev1)
          else
            (Inr (),
             ev1 @
             [call sdk (FDwfDigitalInDividerSet (hdwf devc)
                          (ucast (100000000 div cur_samplerate devc))),
              call sdk (FDwfDigitalInSampleFormatSet (hdwf devc) 16),
              call sdk (FDwfDigitalInTriggerPositionSet (hdwf devc) 100000),
              call sdk (FDwfDigitalInTriggerSourceSet (hdwf devc) trigsrcDetectorDigitalIn),
              call sdk (FDwfDigitalInTriggerSet (hdwf devc)
                          (low_mask m) (high_mask m) (rise_mask m) (fall_mask m)),
              call sdk (FDwfDigitalInConfigure (hdwf devc) True True)]))"

text \<open>
  \<^verbatim>\<open>dev_acquisition_start\<close> of api.c; the trigger is what
  \<^verbatim>\<open>sr_session_trigger_get\<close> returns for the session.
\<close>

definition dev_acquisition_start ::
  "dwf_sdk \<Rightarrow> sr_dev_inst option \<Rightarrow> sr_trigger option \<Rightarrow> sr_error outcome" where
  "dev_acquisition_start sdk sdi_opt trigger =
     (case sdi_opt of
        None \<Rightarrow> (Inr SR_ERR_ARG, [Log SPEW ''%s(), entry''])
      | Some sdi \<Rightarrow>
          (case priv sdi of
             None \<Rightarrow> (Inr SR_ERR_DEV_CLOSED, [Log SPEW ''%s(), entry''])
           | Some devc \<Rightarrow>
               if is_opened devc = False
               then (Inr SR_ERR_DEV_CLOSED, [Log SPEW ''%s(), entry''])
               else
                 (case digilent_analogdiscovery2_start sdk devc trigger of
                    (r, ev) \<Rightarrow>
                      (case r of Inl e \<Rightarrow> Inl e | Inr u \<Rightarrow> Inr SR_OK,
                       [Log SPEW ''%s(), entry'', Session_source_add 100,
                        Session_send_df_header] @ ev))))"

text \<open>The SDK calls of a trace, in order.\<close>

fun dwf_calls :: "event list \<Rightarrow> dwf_call list" where
  "dwf_calls [] = []"
| "dwf_calls (Dwf c r # evs) = c # dwf_calls evs"
| "dwf_calls (e # evs) = dwf_calls evs"

section \<open>Open and close\<close>

text \<open>
  Both return a status and leave the device instance as their second component.
  \<^verbatim>\<open>digilent_analogdiscovery2_open\<close> reads \<^verbatim>\<open>devc->is_opened\<close> without testing
  \<^verbatim>\<open>devc\<close>.
\<close>

definition digilent_analogdiscovery2_open ::
  "dwf_sdk \<Rightarrow> sr_dev_inst option \<Rightarrow> (sr_error \<times> sr_dev_inst option) outcome" where
  "digilent_analogdiscovery2_open sdk sdi_opt =
     (case sdi_opt of
        None \<Rightarrow> (Inr (SR_ERR_ARG, None), [])
      | Some sdi \<Rightarrow>
          (case priv sdi of
             None \<Rightarrow> (Inl Null_dereference, [])
           | Some devc \<Rightarrow>
               if is_opened devc
               then (Inr (SR_ERR_BUG, Some sdi), [Log ERR ''Device %d already open''])
               else
                 let c = FDwfDeviceOpen (enum_idx devc);
                     devc' = devc\<lparr>hdwf := dwf_open_handle sdk (enum_idx devc) (hdwf devc)\<rparr>
                 in
                 if dwf_ret sdk c
                 then (Inr (SR_OK, Some (sdi\<lparr>priv := Some (devc'\<lparr>is_opened := True\<rparr>)\<rparr>)),
                       [call sdk c])
                 else (Inr (SR_ERR_BUG, Some (sdi\<lparr>priv := Some (devc'\<lparr>is_opened := False\<rparr>)\<rparr>)),
                       [call sdk c, Log ERR ''Error opening device number %d''])))"

definition digilent_analogdiscovery2_close ::
  "dwf_sdk \<Rightarrow> sr_dev_inst option \<Rightarrow> (sr_error \<times> sr_dev_inst option) outcome" where
  "digilent_analogdiscovery2_close sdk sdi_opt =
     (case sdi_opt of
        None \<Rightarrow> (Inr (SR_OK, None), [])
      | Some sdi \<Rightarrow>
          (case priv sdi of
             None \<Rightarrow> (Inr (SR_OK, Some sdi), [])
           | Some devc \<Rightarrow>
               if is_opened devc
               then (Inr (SR_OK, Some (sdi\<lparr>priv := Some (devc\<lparr>is_opened := False\<rparr>)\<rparr>)),
                     [call sdk (FDwfDeviceClose (hdwf devc))])
               else (Inr (SR_OK, Some sdi), [])))"


section \<open>config\_set\<close>

text \<open>The table \<^verbatim>\<open>samplerates[]\<close> of api.c (\<^verbatim>\<open>SR_HZ(n)\<close> is \<^verbatim>\<open>n\<close>).\<close>

definition samplerates :: "64 word list" where
  "samplerates = [1, 10, 50, 100, 200]"

text \<open>
  Modelled from the spec: \<^verbatim>\<open>std_u64_idx\<close> is a helper of the library's std.c, which is
  not among the sources. It answers the position of the value in the array, or a negative
  number when the value is not one of the array's elements.
\<close>

fun std_u64_idx :: "64 word \<Rightarrow> 64 word list \<Rightarrow> int" where
  "std_u64_idx data [] = - 1"
| "std_u64_idx data (x # a) =
     (if x = data then 0
      else (let i = std_u64_idx data a in if i < 0 then - 1 else i + 1))"

datatype sr_configkey = SR_CONF_SAMPLERATE | SR_CONF_TRIGGER_MATCH | SR_CONF_OTHER nat

text \<open>
  \<^verbatim>\<open>config_set\<close>: \<^verbatim>\<open>sdi->priv\<close> is read before anything else; only the sample-rate
  key writes to the device context, after the index was checked to be non-negative.
\<close>

definition config_set ::
  "sr_configkey \<Rightarrow> 64 word \<Rightarrow> sr_dev_inst option \<Rightarrow> (sr_error \<times> sr_dev_inst option) outcome" where
  "config_set key data sdi_opt =
     (case sdi_opt of
        None \<Rightarrow> (Inl Null_dereference, [Log SPEW ''AnalogDiscovery2: config_set(key=%d)''])
      | Some sdi \<Rightarrow>
          (case key of
             SR_CONF_TRIGGER_MATCH \<Rightarrow>
               (Inr (SR_OK, Some sdi),
                [Log SPEW ''AnalogDiscovery2: config_set(key=%d)'',
                 Log SPEW ''config_set(): TRIGGER_MATCH''])
           | SR_CONF_SAMPLERATE \<Rightarrow>
               let idx = std_u64_idx data samplerates;
                   ev = [Log SPEW ''AnalogDiscovery2: config_set(key=%d)'',
                         Log SPEW ''config_set(): SAMPLERATE'',
                         Log SPEW ''     idx = %d'']
               in
               if idx < 0 then (Inr (SR_ERR_ARG, Some sdi), ev)
               else if \<not> nat idx < length samplerates then (Inl Undefined_array_index, ev)
               else
                 (case priv sdi of
                    None \<Rightarrow> (Inl Null_dereference, ev)
                  | Some devc \<Rightarrow>
                      (Inr (SR_OK,
                            Some (sdi\<lparr>priv :=
                                    Some (devc\<lparr>cur_samplerate := samplerates ! nat idx\<rparr>)\<rparr>)),
                       ev @ [Log SPEW ''set the sample rate to %ld Hz'']))
           | SR_CONF_OTHER k \<Rightarrow>
               (Inr (SR_ERR_NA, Some sdi), [Log SPEW ''AnalogDiscovery2: config_set(key=%d)''])))"

section \<open>digilent\_analogdiscovery2\_scan\<close>

definition NUM_LOGIC_CHAN :: int where
  "NUM_LOGIC_CHAN = 16"

text \<open>What \<^verbatim>\<open>snprintf(channel_name, 16, "%d", j)\<close> writes: the decimal digits of \<open>j\<close>.\<close>

function dec_digits :: "nat \<Rightarrow> string" where
  "dec_digits n =
     (if n < 10 then [char_of (48 + n)]
      else dec_digits (n div 10) @ [char_of (48 + n mod 10)])"
  by pat_completeness auto
termination
  by (relation "measure (\<lambda>n. n)") auto

definition snprintf_d :: "int \<Rightarrow> string" where
  "snprintf_d j = (if j < 0 then CHR ''-'' # dec_digits (nat (- j)) else dec_digits (nat j))"

text \<open>
  The channel that \<^verbatim>\<open>sr_channel_new(sdi, j, SR_CHANNEL_LOGIC, TRUE, channel_name)\<close>
  creates in the loop over the logic channels.
\<close>

definition logic_channel :: "int \<Rightarrow> sr_channel" where
  "logic_channel j = \<lparr>index = j, enabled = True, name = snprintf_d j\<rparr>"

text \<open>
  One iteration of the loop over the enumerated devices: the device instance with its
  freshly allocated context (zeroed, then index, closed flag and the default rate of
  100 Hz) and the channel group of the sixteen logic channels.
\<close>

definition scan_device :: "dwf_sdk \<Rightarrow> int \<Rightarrow> sr_dev_inst" where
  "scan_device sdk dev =
     \<lparr>status = SR_ST_INITIALIZING,
      vendor = ''Digilent'',
      model = dwf_enum_device_name sdk dev,
      version = dwf_version sdk,
      serial_num = dwf_enum_sn sdk dev,
      priv = Some \<lparr>enum_idx = word_of_int dev, is_opened = False, hdwf = 0,
                   cur_samplerate = 100\<rparr>,
      channel_groups =
        [\<lparr>group_name = ''Logic'',
          channels = map logic_channel [0..NUM_LOGIC_CHAN - 1]\<rparr>]\<rparr>"

definition digilent_analogdiscovery2_scan :: "dwf_sdk \<Rightarrow> sr_dev_inst list" where
  "digilent_analogdiscovery2_scan sdk = map (scan_device sdk) [0..dwf_enum sdk - 1]"

section \<open>Sessions of driver calls\<close>

text \<open>
  The entry points of the driver that take a device instance, as the framework may call
  them in any order on an instance that scan returned. A call that crashes ends the
  process and has no successor. The entry points left out (config\_get, config\_list,
  dev\_acquisition\_stop) do not write to the device context.
\<close>

datatype api_call =
    Api_config_set sr_configkey "64 word"
  | Api_open
  | Api_close
  | Api_acquisition_start "sr_trigger option"
  | Api_receive_data

definition api_step :: "dwf_sdk \<Rightarrow> api_call \<Rightarrow> sr_dev_inst \<Rightarrow> sr_dev_inst option" where
  "api_step sdk c sdi =
     (case c of
        Api_config_set key data \<Rightarrow>
          (case fst (config_set key data (Some sdi)) of
             Inl e \<Rightarrow> None | Inr (ret, sdi') \<Rightarrow> sdi')
      | Api_open \<Rightarrow>
          (case fst (digilent_analogdiscovery2_open sdk (Some sdi)) of
             Inl e \<Rightarrow> None | Inr (ret, sdi') \<Rightarrow> sdi')
      | Api_close \<Rightarrow>
          (case fst (digilent_analogdiscovery2_close sdk (Some sdi)) of
             Inl e \<Rightarrow> None | Inr (ret, sdi') \<Rightarrow> sdi')
      | Api_acquisition_start trigger \<Rightarrow>
          (case fst (dev_acquisition_start sdk (Some sdi) trigger) of
             Inl e \<Rightarrow> None | Inr ret \<Rightarrow> Some sdi)
      | Api_receive_data \<Rightarrow>
          (case fst (digilent_analogdiscovery2_receive_data sdk (Some sdi)) of
             Inl e \<Rightarrow> None | Inr ret \<Rightarrow> Some sdi))"

inductive reachable :: "sr_dev_inst \<Rightarrow> bool" where
  scanned: "sdi \<in> set (digilent_analogdiscovery2_scan sdk) \<Longrightarrow> reachable sdi"
| stepped: "reachable sdi \<Longrightarrow> api_step sdk c sdi = Some sdi' \<Longrightarrow> reachable sdi'"


section \<open>Notions used to state the properties\<close>

text \<open>
  A match whose channel number passes the assertion of the decoder, the channel number
  itself, and the effect of the switch on the masks for such a match.
\<close>

definition chan_ok :: "sr_trigger_match \<Rightarrow> bool" where
  "chan_ok x = (case atoi (name (channel x)) of None \<Rightarrow> False | Some c \<Rightarrow> 0 \<le> c \<and> c < 16)"

definition chan_no_of :: "sr_trigger_match \<Rightarrow> nat" where
  "chan_no_of x = (case atoi (name (channel x)) of None \<Rightarrow> 0 | Some c \<Rightarrow> nat c)"

definition apply_match :: "sr_trigger_match \<Rightarrow> masks \<Rightarrow> masks" where
  "apply_match x m = fst (switch_match (match x) (chan_no_of x) m)"

text \<open>The sample rate of a device instance is one of the rates of the table.\<close>

definition rate_ok :: "sr_dev_inst \<Rightarrow> bool" where
  "rate_ok sdi = (case priv sdi of None \<Rightarrow> False | Some devc \<Rightarrow> cur_samplerate devc \<in> set samplerates)"

text \<open>The warnings about staged triggers in a trace, and the logic packets sent.\<close>

fun staged_warnings :: "event list \<Rightarrow> nat" where
  "staged_warnings [] = 0"
| "staged_warnings (Log WARN s # evs) = Suc (staged_warnings evs)"
| "staged_warnings (e # evs) = staged_warnings evs"

fun packets :: "event list \<Rightarrow> sr_datafeed_logic list" where
  "packets [] = []"
| "packets (Session_send_logic p # evs) = p # packets evs"
| "packets (e # evs) = packets evs"

text \<open>
  The specification's reading of a staged trigger, for comparison with the decoder:
  the union of the masks of the match pairs of every stage.
\<close>

definition spec_union_masks :: "sr_trigger \<Rightarrow> masks" where
  "spec_union_masks t = fold apply_match (concat (map matches (stages t))) zero_masks"

section \<open>Example inputs\<close>

text \<open>A match on the logic channel \<open>j\<close> as scan names it, and triggers built from such matches.\<close>

definition match_on :: "int \<Rightarrow> sr_trigger_matches \<Rightarrow> sr_trigger_match" where
  "match_on j k = \<lparr>channel = logic_channel j, match = k\<rparr>"

definition trigger_of :: "sr_trigger_match list list \<Rightarrow> sr_trigger" where
  "trigger_of mss =
     \<lparr>trigger_name = ''t'',
      stages = map (\<lambda>(i, ms). \<lparr>stage = int i, matches = ms\<rparr>) (enumerate 0 mss)\<rparr>"

text \<open>
  An SDK whose calls all return the same result and report the same status, and a device
  instance as scan makes it, with a given open flag and sample rate and the handle 1.
\<close>

definition sdk_const :: "bool \<Rightarrow> cint \<times> cint \<times> cint \<Rightarrow> DwfState \<Rightarrow> dwf_sdk" where
  "sdk_const ok counters sts =
     \<lparr>dwf_ret = (\<lambda>c. ok),
      dwf_open_handle = (\<lambda>i h. 1),
      dwf_status_record = (\<lambda>h. counters),
      dwf_status = (\<lambda>h. sts),
      dwf_enum = 1,
      dwf_enum_device_name = (\<lambda>i. ''Analog Discovery 2''),
      dwf_version = ''3.8.2'',
      dwf_enum_sn = (\<lambda>i. ''SN:210321A00000'')\<rparr>"

definition sdi_with :: "bool \<Rightarrow> 64 word \<Rightarrow> sr_dev_inst" where
  "sdi_with opened rate =
     (scan_device (sdk_const True (0, 0, 0) DwfStateReady) 0)
       \<lparr>priv := Some \<lparr>enum_idx = 0, is_opened = opened, hdwf = 1, cur_samplerate = rate\<rparr>\<rparr>"

section \<open>The decoder's result\<close>

text \<open>
  On matches whose channel numbers all pass the assertion, the inner loop folds the
  switch over the list; otherwise it ends in a crash.
\<close>

lemma decode_match_ok: "chan_ok x \<Longrightarrow> fst (decode_match x m) = Inr (apply_match x m)"
  by (auto simp: chan_ok_def decode_match_def apply_match_def chan_no_of_def
      split: option.splits prod.splits)

lemma decode_match_bad: "\<not> chan_ok x \<Longrightarrow> \<exists>e. fst (decode_match x m) = Inl e"
  by (auto simp: chan_ok_def decode_match_def split: option.splits prod.splits)

lemma match_loop_ok:
  "list_all chan_ok ms \<Longrightarrow> fst (match_loop ms m) = Inr (fold apply_match ms m)"
proof (induction ms arbitrary: m)
  case Nil
  then show ?case by simp
next
  case (Cons x ms)
  from Cons.prems have ok: "chan_ok x" and rest: "list_all chan_ok ms"
    by simp_all
  from decode_match_ok [OF ok, of m]
  obtain ev where d: "decode_match x m = (Inr (apply_match x m), ev)"
    by (cases "decode_match x m") simp
  show ?case
    using Cons.IH [OF rest, of "apply_match x m"] d by (auto split: prod.splits)
qed

lemma match_loop_bad: "\<not> list_all chan_ok ms \<Longrightarrow> \<exists>e. fst (match_loop ms m) = Inl e"
proof (induction ms arbitrary: m)
  case Nil
  then show ?case by simp
next
  case (Cons x ms)
  show ?case
  proof (cases "chan_ok x")
    case True
    from decode_match_ok [OF True, of m]
    obtain ev where d: "decode_match x m = (Inr (apply_match x m), ev)"
      by (cases "decode_match x m") simp
    from True Cons.prems have "\<not> list_all chan_ok ms"
      by simp
    from Cons.IH [OF this, of "apply_match x m"] show ?thesis
      using d by (auto split: prod.splits)
  next
    case False
    from decode_match_bad [OF False, of m]
    obtain e ev where "decode_match x m = (Inl e, ev)"
      by (cases "decode_match x m") auto
    then show ?thesis by simp
  qed
qed

text \<open>
  The effect of one match on the masks commutes with that of any other and is
  idempotent: the masks only collect bits.
\<close>

lemma apply_match_commute:
  "apply_match x (apply_match y m) = apply_match y (apply_match x m)"
  by (cases "match x"; cases "match y") (simp_all add: apply_match_def ac_simps)

lemma apply_match_idem: "apply_match x (apply_match x m) = apply_match x m"
  by (cases "match x") (simp_all add: apply_match_def)

lemma fold_apply_match_swap:
  "apply_match x (fold apply_match ms m) = fold apply_match ms (apply_match x m)"
  by (induction ms arbitrary: m) (simp_all add: apply_match_commute)

lemma fold_apply_match_idem:
  "fold apply_match ms (fold apply_match ms m) = fold apply_match ms m"
proof (induction ms arbitrary: m)
  case Nil
  show ?case by simp
next
  case (Cons x ms)
  have "fold apply_match (x # ms) (fold apply_match (x # ms) m)
        = fold apply_match ms (apply_match x (fold apply_match ms (apply_match x m)))"
    by simp
  also have "\<dots> = fold apply_match ms (fold apply_match ms (apply_match x (apply_match x m)))"
    by (simp only: fold_apply_match_swap)
  also have "\<dots> = fold apply_match ms (apply_match x m)"
    by (simp only: apply_match_idem Cons.IH)
  finally show ?case by simp
qed

text \<open>
  Every iteration of the outer loop walks the matches of the first stage again, so the
  result of a trigger is the fold over the first stage, however many stages follow.
\<close>

lemma stage_loop_ok:
  "list_all chan_ok (matches st) \<Longrightarrow> slist \<noteq> [] \<Longrightarrow>
   fst (stage_loop st slist (fold apply_match (matches st) m)) = Inr (fold apply_match (matches st) m)
   \<and> fst (stage_loop st slist m) = Inr (fold apply_match (matches st) m)"
proof (induction slist arbitrary: m)
  case Nil
  then show ?case by simp
next
  case (Cons s slist)
  let ?M = "fold apply_match (matches st)"
  from match_loop_ok [OF Cons.prems(1)]
  have ml: "\<And>m. \<exists>ev. match_loop (matches st) m = (Inr (?M m), ev)"
    by (metis prod.collapse)
  show ?case
  proof (cases "slist = []")
    case True
    then show ?thesis using ml [of m] ml [of "?M m"]
      by (auto simp: fold_apply_match_idem)
  next
    case False
    from Cons.IH [OF Cons.prems(1) False]
    have ih: "\<And>m. fst (stage_loop st slist (?M m)) = Inr (?M m)"
      by blast
    show ?thesis using ml [of m] ml [of "?M m"] ih [of m] ih [of "?M m"]
      by (auto simp: fold_apply_match_idem split: prod.splits)
  qed
qed

lemma stage_loop_bad:
  "\<not> list_all chan_ok (matches st) \<Longrightarrow> slist \<noteq> [] \<Longrightarrow> \<exists>e. fst (stage_loop st slist m) = Inl e"
  using match_loop_bad [of "matches st" m]
  by (cases slist) (auto split: prod.splits sum.splits)

lemma masks_of_decode_trigger:
  "masks_of (decode_trigger (Some t)) =
     (case stages t of
        [] \<Rightarrow> None
      | st # rest \<Rightarrow>
          if list_all chan_ok (matches st) then Some (fold apply_match (matches st) zero_masks)
          else None)"
proof (cases "stages t")
  case Nil
  then show ?thesis by (simp add: masks_of_def decode_trigger_def)
next
  case (Cons st rest)
  show ?thesis
  proof (cases "list_all chan_ok (matches st)")
    case True
    from stage_loop_ok [OF True, of "st # rest" zero_masks]
    obtain evs where "stage_loop st (st # rest) zero_masks
                      = (Inr (fold apply_match (matches st) zero_masks), evs)"
      by (metis list.distinct(1) prod.collapse)
    then show ?thesis using Cons True
      by (simp add: masks_of_def decode_trigger_def del: stage_loop.simps)
  next
    case False
    from stage_loop_bad [OF False, of "st # rest" zero_masks]
    obtain e evs where "stage_loop st (st # rest) zero_masks = (Inl e, evs)"
      by (metis list.distinct(1) prod.collapse)
    then show ?thesis using Cons False
      by (simp add: masks_of_def decode_trigger_def del: stage_loop.simps)
  qed
qed

lemma decode_trigger_first_stage_only:
  "stages t = st # rest \<Longrightarrow>
   masks_of (decode_trigger (Some t)) = masks_of (decode_trigger (Some (t\<lparr>stages := [st]\<rparr>)))"
  by (simp add: masks_of_decode_trigger)

text \<open>
  Which crash ends the decoder: a failed range assertion, unless some channel name
  has no value as an \<^verbatim>\<open>int\<close> or the stage list is empty.
\<close>

lemma match_loop_assert:
  "\<forall>y\<in>set ms. atoi (name (channel y)) \<noteq> None \<Longrightarrow> \<not> list_all chan_ok ms \<Longrightarrow>
   fst (match_loop ms m) = Inl Assert_chan_no"
proof (induction ms arbitrary: m)
  case Nil
  then show ?case by simp
next
  case (Cons x ms)
  show ?case
  proof (cases "chan_ok x")
    case True
    from decode_match_ok [OF True, of m]
    obtain ev where d: "decode_match x m = (Inr (apply_match x m), ev)"
      by (cases "decode_match x m") simp
    from True Cons.prems have "\<not> list_all chan_ok ms" and "\<forall>y\<in>set ms. atoi (name (channel y)) \<noteq> None"
      by simp_all
    from Cons.IH [OF this(2) this(1), of "apply_match x m"] show ?thesis
      using d by (auto split: prod.splits)
  next
    case False
    from Cons.prems(1) obtain c where "atoi (name (channel x)) = Some c"
      by auto
    with False have "decode_match x m = (Inl Assert_chan_no, [])"
      by (auto simp: chan_ok_def decode_match_def)
    then show ?thesis by simp
  qed
qed

lemma decode_match_crash:
  "decode_match x m = (Inl e, ev) \<Longrightarrow> e \<in> {Assert_chan_no, Undefined_atoi}"
  by (auto simp: decode_match_def split: option.splits prod.splits if_splits)

lemma match_loop_crash:
  "match_loop ms m = (Inl e, ev) \<Longrightarrow> e \<in> {Assert_chan_no, Undefined_atoi}"
proof (induction ms arbitrary: m ev)
  case Nil
  then show ?case by simp
next
  case (Cons x ms)
  then show ?case
    by (auto split: prod.splits sum.splits dest: decode_match_crash)
qed

lemma stage_loop_crash:
  "stage_loop st slist m = (Inl e, ev) \<Longrightarrow> e \<in> {Assert_chan_no, Undefined_atoi}"
proof (induction slist arbitrary: m ev)
  case Nil
  then show ?case by simp
next
  case (Cons s slist)
  then show ?case
    by (auto split: prod.splits sum.splits if_splits dest: match_loop_crash)
qed

lemma decode_trigger_crash:
  "decode_trigger trigger = (Inl e, ev) \<Longrightarrow>
   e \<in> {Assert_chan_no, Undefined_atoi, Null_dereference}"
  by (auto simp: decode_trigger_def split: option.splits list.splits prod.splits
      simp del: stage_loop.simps dest: stage_loop_crash)

text \<open>
  The bits of the masks. The value \<^verbatim>\<open>1<<chan_no\<close> has exactly the bit \<open>chan_no\<close>
  set, and a bit of a mask after the loop was either set before or comes from a match of
  the corresponding kind on that channel.
\<close>

lemma bit_chan_pow: "c < 16 \<Longrightarrow> bit (2 ^ c :: cint) n \<longleftrightarrow> n = c"
  by (auto simp: bit_exp_iff)

lemma bit_chan: "c < 16 \<Longrightarrow> bit (push_bit c (1::cint)) n \<longleftrightarrow> n = c"
  by (simp add: bit_chan_pow)

lemma chan_okD: "chan_ok x \<Longrightarrow> chan_no_of x < 16"
  by (auto simp: chan_ok_def chan_no_of_def split: option.splits)

lemma low_bits_apply:
  "chan_ok x \<Longrightarrow> bit (low_mask (apply_match x m)) n \<longleftrightarrow>
     bit (low_mask m) n \<or> (match x = SR_TRIGGER_ZERO \<and> chan_no_of x = n)"
  by (cases "match x") (auto simp: apply_match_def bit_or_iff bit_chan_pow chan_okD)

lemma high_bits_apply:
  "chan_ok x \<Longrightarrow> bit (high_mask (apply_match x m)) n \<longleftrightarrow>
     bit (high_mask m) n \<or> (match x = SR_TRIGGER_ONE \<and> chan_no_of x = n)"
  by (cases "match x") (auto simp: apply_match_def bit_or_iff bit_chan_pow chan_okD)

lemma rise_bits_apply:
  "chan_ok x \<Longrightarrow> bit (rise_mask (apply_match x m)) n \<longleftrightarrow>
     bit (rise_mask m) n \<or> ((match x = SR_TRIGGER_RISING \<or> match x = SR_TRIGGER_EDGE) \<and> chan_no_of x = n)"
  by (cases "match x") (auto simp: apply_match_def bit_or_iff bit_chan_pow chan_okD)

lemma fall_bits_apply:
  "chan_ok x \<Longrightarrow> bit (fall_mask (apply_match x m)) n \<longleftrightarrow>
     bit (fall_mask m) n \<or> ((match x = SR_TRIGGER_FALLING \<or> match x = SR_TRIGGER_EDGE) \<and> chan_no_of x = n)"
  by (cases "match x") (auto simp: apply_match_def bit_or_iff bit_chan_pow chan_okD)

lemma low_bits_fold:
  "list_all chan_ok ms \<Longrightarrow> bit (low_mask (fold apply_match ms m)) n \<longleftrightarrow>
     bit (low_mask m) n \<or> (\<exists>x\<in>set ms. match x = SR_TRIGGER_ZERO \<and> chan_no_of x = n)"
  by (induction ms arbitrary: m) (auto simp: low_bits_apply)

lemma high_bits_fold:
  "list_all chan_ok ms \<Longrightarrow> bit (high_mask (fold apply_match ms m)) n \<longleftrightarrow>
     bit (high_mask m) n \<or> (\<exists>x\<in>set ms. match x = SR_TRIGGER_ONE \<and> chan_no_of x = n)"
  by (induction ms arbitrary: m) (auto simp: high_bits_apply)

lemma rise_bits_fold:
  "list_all chan_ok ms \<Longrightarrow> bit (rise_mask (fold apply_match ms m)) n \<longleftrightarrow>
     bit (rise_mask m) n
     \<or> (\<exists>x\<in>set ms. (match x = SR_TRIGGER_RISING \<or> match x = SR_TRIGGER_EDGE) \<and> chan_no_of x = n)"
  by (induction ms arbitrary: m) (auto simp: rise_bits_apply)

lemma fall_bits_fold:
  "list_all chan_ok ms \<Longrightarrow> bit (fall_mask (fold apply_match ms m)) n \<longleftrightarrow>
     bit (fall_mask m) n
     \<or> (\<exists>x\<in>set ms. (match x = SR_TRIGGER_FALLING \<or> match x = SR_TRIGGER_EDGE) \<and> chan_no_of x = n)"
  by (induction ms arbitrary: m) (auto simp: fall_bits_apply)

lemma decode_match_in_range:
  assumes "atoi (name ch) = Some c" and "0 \<le> c" and "c < 16"
  shows "fst (decode_match \<lparr>channel = ch, match = k\<rparr> m) = Inr (fst (switch_match k (nat c) m))"
  using assms by (simp add: decode_match_def split: prod.splits)

text \<open>The decoder reads the name of a channel and never its index.\<close>

lemma decode_match_index:
  "decode_match \<lparr>channel = ch\<lparr>index := i\<rparr>, match = k\<rparr> m
   = decode_match \<lparr>channel = ch, match = k\<rparr> m"
  by (cases "atoi (name ch)") (simp_all add: decode_match_def)

lemma decode_trigger_bits:
  assumes "stages t = st # rest" and "list_all chan_ok (matches st)"
  shows "\<exists>M. masks_of (decode_trigger (Some t)) = Some M
     \<and> (\<forall>n. bit (low_mask M) n \<longleftrightarrow>
            (\<exists>x\<in>set (matches st). match x = SR_TRIGGER_ZERO \<and> chan_no_of x = n))
     \<and> (\<forall>n. bit (high_mask M) n \<longleftrightarrow>
            (\<exists>x\<in>set (matches st). match x = SR_TRIGGER_ONE \<and> chan_no_of x = n))
     \<and> (\<forall>n. bit (rise_mask M) n \<longleftrightarrow>
            (\<exists>x\<in>set (matches st).
               (match x = SR_TRIGGER_RISING \<or> match x = SR_TRIGGER_EDGE) \<and> chan_no_of x = n))
     \<and> (\<forall>n. bit (fall_mask M) n \<longleftrightarrow>
            (\<exists>x\<in>set (matches st).
               (match x = SR_TRIGGER_FALLING \<or> match x = SR_TRIGGER_EDGE) \<and> chan_no_of x = n))"
proof -
  let ?M = "fold apply_match (matches st) zero_masks"
  from assms have m: "masks_of (decode_trigger (Some t)) = Some ?M"
    by (simp add: masks_of_decode_trigger)
  have l: "\<forall>n. bit (low_mask ?M) n \<longleftrightarrow>
            (\<exists>x\<in>set (matches st). match x = SR_TRIGGER_ZERO \<and> chan_no_of x = n)"
    by (simp add: low_bits_fold [OF assms(2)] zero_masks_def)
  have h: "\<forall>n. bit (high_mask ?M) n \<longleftrightarrow>
            (\<exists>x\<in>set (matches st). match x = SR_TRIGGER_ONE \<and> chan_no_of x = n)"
    by (simp add: high_bits_fold [OF assms(2)] zero_masks_def)
  have r: "\<forall>n. bit (rise_mask ?M) n \<longleftrightarrow>
            (\<exists>x\<in>set (matches st).
               (match x = SR_TRIGGER_RISING \<or> match x = SR_TRIGGER_EDGE) \<and> chan_no_of x = n)"
    by (simp add: rise_bits_fold [OF assms(2)] zero_masks_def)
  have f: "\<forall>n. bit (fall_mask ?M) n \<longleftrightarrow>
            (\<exists>x\<in>set (matches st).
               (match x = SR_TRIGGER_FALLING \<or> match x = SR_TRIGGER_EDGE) \<and> chan_no_of x = n)"
    by (simp add: fall_bits_fold [OF assms(2)] zero_masks_def)
  from m l h r f show ?thesis
    by blast
qed

text \<open>
  The names that scan gives the sixteen logic channels are read back by \<^verbatim>\<open>atoi\<close>
  as their indices.
\<close>

lemma atoi_logic_channel: "\<forall>j \<in> set [0..NUM_LOGIC_CHAN - 1]. atoi (name (logic_channel j)) = Some j"
  by code_simp

section \<open>Traces\<close>

text \<open>
  The staged-trigger warning is logged once after every stage that has a successor.
\<close>

lemma staged_warnings_append: "staged_warnings (a @ b) = staged_warnings a + staged_warnings b"
  by (induction a rule: staged_warnings.induct) simp_all

lemma staged_warnings_switch_match: "switch_match k c m = (m', ev) \<Longrightarrow> staged_warnings ev = 0"
  by (cases k) auto

lemma staged_warnings_decode_match: "decode_match x m = (r, ev) \<Longrightarrow> staged_warnings ev = 0"
  by (auto simp: decode_match_def split: option.splits prod.splits if_splits
      dest: staged_warnings_switch_match)

lemma staged_warnings_match_loop: "match_loop ms m = (r, ev) \<Longrightarrow> staged_warnings ev = 0"
proof (induction ms arbitrary: m r ev)
  case Nil
  then show ?case by auto
next
  case (Cons x ms)
  then show ?case
    by (auto simp: staged_warnings_append split: prod.splits sum.splits
        dest: staged_warnings_decode_match)
qed

lemma staged_warnings_stage_loop:
  "list_all chan_ok (matches st) \<Longrightarrow> stage_loop st slist m = (r, ev) \<Longrightarrow>
   staged_warnings ev = length slist - 1"
proof (induction slist arbitrary: m r ev)
  case Nil
  then show ?case by auto
next
  case (Cons s slist)
  from match_loop_ok [OF Cons.prems(1), of m]
  obtain ev1 where ml: "match_loop (matches st) m = (Inr (fold apply_match (matches st) m), ev1)"
    by (metis prod.collapse)
  obtain r2 ev2 where sl: "stage_loop st slist (fold apply_match (matches st) m) = (r2, ev2)"
    by (cases "stage_loop st slist (fold apply_match (matches st) m)")
  from Cons.IH [OF Cons.prems(1) sl] have ih: "staged_warnings ev2 = length slist - 1" .
  from staged_warnings_match_loop [OF ml] have z: "staged_warnings ev1 = 0" .
  from Cons.prems(2) ml sl have "ev = Log SPEW '' stage no 0x%x'' # ev1
                   @ (if slist \<noteq> []
                      then [Log WARN ''Staged triggers are not supported with this device!'']
                      else [])
                   @ ev2"
    by simp
  then show ?case using ih z
    by (cases slist) (simp_all add: staged_warnings_append)
qed

lemma staged_warnings_decode_trigger:
  assumes "stages t = st # rest" and "list_all chan_ok (matches st)"
  shows "staged_warnings (snd (decode_trigger (Some t))) = length rest"
proof -
  obtain r ev where sl: "stage_loop st (st # rest) zero_masks = (r, ev)"
    by (cases "stage_loop st (st # rest) zero_masks")
  from staged_warnings_stage_loop [OF assms(2) sl] have "staged_warnings ev = length rest"
    by simp
  with sl assms(1) show ?thesis
    by (simp add: decode_trigger_def del: stage_loop.simps)
qed

text \<open>
  The decoder only logs: its trace has no SDK call.
\<close>

lemma dwf_calls_append: "dwf_calls (a @ b) = dwf_calls a @ dwf_calls b"
  by (induction a rule: dwf_calls.induct) simp_all

lemma dwf_calls_switch_match: "switch_match k c m = (m', ev) \<Longrightarrow> dwf_calls ev = []"
  by (cases k) auto

lemma dwf_calls_decode_match: "decode_match x m = (r, ev) \<Longrightarrow> dwf_calls ev = []"
  by (auto simp: decode_match_def split: option.splits prod.splits if_splits
      dest: dwf_calls_switch_match)

lemma dwf_calls_match_loop: "match_loop ms m = (r, ev) \<Longrightarrow> dwf_calls ev = []"
proof (induction ms arbitrary: m r ev)
  case Nil
  then show ?case by auto
next
  case (Cons x ms)
  then show ?case
    by (auto simp: dwf_calls_append split: prod.splits sum.splits
        dest: dwf_calls_decode_match)
qed

lemma dwf_calls_stage_loop: "stage_loop st slist m = (r, ev) \<Longrightarrow> dwf_calls ev = []"
proof (induction slist arbitrary: m r ev)
  case Nil
  then show ?case by auto
next
  case (Cons s slist)
  then show ?case
    by (auto simp: dwf_calls_append split: prod.splits sum.splits if_splits
        dest: dwf_calls_match_loop)
qed

lemma dwf_calls_decode_trigger: "dwf_calls (snd (decode_trigger trigger)) = []"
  by (auto simp: decode_trigger_def split: option.splits list.splits prod.splits
      simp del: stage_loop.simps dest: dwf_calls_stage_loop)

lemma packets_append: "packets (a @ b) = packets a @ packets b"
  by (induction a rule: packets.induct) simp_all

lemma uint_length_bytes:
  assumes "0 \<le> k" and "k \<le> payload_size"
  shows "uint (word_of_int k :: 64 word) = k"
proof -
  from assms have "k < 2 ^ 64"
    by (simp add: payload_size_def)
  with assms(1) show ?thesis
    by (simp add: uint_word_of_int take_bit_int_eq_self)
qed

section \<open>The sample rate of a reachable device instance\<close>

lemma scan_rate_ok: "sdi \<in> set (digilent_analogdiscovery2_scan sdk) \<Longrightarrow> rate_ok sdi"
  by (auto simp: digilent_analogdiscovery2_scan_def scan_device_def rate_ok_def samplerates_def)

lemma config_set_rate_ok:
  "rate_ok sdi \<Longrightarrow> fst (config_set key data (Some sdi)) = Inr (ret, Some sdi') \<Longrightarrow> rate_ok sdi'"
  by (cases key)
    (auto simp: config_set_def rate_ok_def Let_def split: option.splits if_splits)

lemma open_rate_ok:
  "rate_ok sdi \<Longrightarrow> fst (digilent_analogdiscovery2_open sdk (Some sdi)) = Inr (ret, Some sdi') \<Longrightarrow> rate_ok sdi'"
  by (auto simp: digilent_analogdiscovery2_open_def rate_ok_def Let_def split: option.splits if_splits)

lemma close_rate_ok:
  "rate_ok sdi \<Longrightarrow> fst (digilent_analogdiscovery2_close sdk (Some sdi)) = Inr (ret, Some sdi') \<Longrightarrow> rate_ok sdi'"
  by (auto simp: digilent_analogdiscovery2_close_def rate_ok_def split: option.splits if_splits)

lemma api_step_rate_ok: "rate_ok sdi \<Longrightarrow> api_step sdk c sdi = Some sdi' \<Longrightarrow> rate_ok sdi'"
  by (cases c)
    (auto simp: api_step_def split: sum.splits prod.splits
      dest: config_set_rate_ok open_rate_ok close_rate_ok)

lemma reachable_rate_ok: "reachable sdi \<Longrightarrow> rate_ok sdi"
  by (induction rule: reachable.induct) (auto intro: scan_rate_ok api_step_rate_ok)

lemma start_no_assert:
  "cur_samplerate devc \<noteq> 0 \<Longrightarrow>
   fst (digilent_analogdiscovery2_start sdk devc trigger) \<noteq> Inl Assert_samplerate"
  by (auto simp: digilent_analogdiscovery2_start_def Let_def split: prod.splits sum.splits
      dest: decode_trigger_crash)

section \<open>Trigger decoding\<close>

text \<open>
  C1. The specification asks, for a trigger of several stages, for the union of the
  masks of all stages and for one warning. The decoder is evaluated on a trigger of
  two stages, \<open>{channel 0: zero}\<close> then \<open>{channel 1: one}\<close>: it yields the masks of
  the first stage only (low = 1, high = 0), where the union of the stages has
  high = 2; and on a trigger of three stages it logs the warning twice.
\<close>

theorem decode_trigger_staged:
  "masks_of (decode_trigger (Some (trigger_of [[match_on 0 SR_TRIGGER_ZERO], [match_on 1 SR_TRIGGER_ONE]])))
     = Some \<lparr>low_mask = 1, high_mask = 0, rise_mask = 0, fall_mask = 0\<rparr>
   \<and> spec_union_masks (trigger_of [[match_on 0 SR_TRIGGER_ZERO], [match_on 1 SR_TRIGGER_ONE]])
     = \<lparr>low_mask = 1, high_mask = 2, rise_mask = 0, fall_mask = 0\<rparr>
   \<and> staged_warnings (snd (decode_trigger (Some (trigger_of
        [[match_on 0 SR_TRIGGER_ZERO], [match_on 1 SR_TRIGGER_ONE], [match_on 2 SR_TRIGGER_ONE]])))) = 2"
  by code_simp

text \<open>
  C4, as stated: a channel number outside \<open>[0,16)\<close> is answered by an
  InvalidArgument error. On the match \<open>{channel 16: zero}\<close> the decoder stops at the
  failed assertion; it has no error value to return.
\<close>

theorem decode_trigger_invalid_argument_counterexample:
  "decode_trigger (Some (trigger_of [[match_on 16 SR_TRIGGER_ZERO]]))
   = (Inl Assert_chan_no,
      [Log SPEW ''trigger with name %s found'', Log SPEW '' stage no 0x%x''])"
  by code_simp

text \<open>
  C4, amended. When the first stage of a trigger holds a match whose channel number
  is outside \<open>[0,16)\<close>, and every channel name of that stage has a value as an
  \<^verbatim>\<open>int\<close>, decoding ends in the failed range assertion, which aborts the process.
\<close>

theorem decode_trigger_chan_no_assert:
  assumes "stages t = st # rest"
    and "x \<in> set (matches st)"
    and "atoi (name (channel x)) = Some c"
    and "c < 0 \<or> 16 \<le> c"
    and "\<forall>y\<in>set (matches st). atoi (name (channel y)) \<noteq> None"
  shows "fst (decode_trigger (Some t)) = Inl Assert_chan_no"
proof -
  from assms(2-4) have "\<not> chan_ok x"
    by (auto simp: chan_ok_def)
  with assms(2) have bad: "\<not> list_all chan_ok (matches st)"
    by (auto simp: list_all_iff)
  from match_loop_assert [OF assms(5) bad, of zero_masks]
  obtain ev where "match_loop (matches st) zero_masks = (Inl Assert_chan_no, ev)"
    by (metis prod.collapse)
  then show ?thesis using assms(1)
    by (simp add: decode_trigger_def)
qed

text \<open>
  The amended C4 on the stage \<open>{channel 3: one, channel 16: zero}\<close>.
\<close>

theorem decode_trigger_chan_no_assert_witness:
  "stages (trigger_of [[match_on 3 SR_TRIGGER_ONE, match_on 16 SR_TRIGGER_ZERO]])
     = \<lparr>stage = 0, matches = [match_on 3 SR_TRIGGER_ONE, match_on 16 SR_TRIGGER_ZERO]\<rparr> # []
   \<and> atoi (name (channel (match_on 16 SR_TRIGGER_ZERO))) = Some 16
   \<and> fst (decode_trigger (Some (trigger_of [[match_on 3 SR_TRIGGER_ONE, match_on 16 SR_TRIGGER_ZERO]])))
     = Inl Assert_chan_no"
proof -
  let ?ms = "[match_on 3 SR_TRIGGER_ONE, match_on 16 SR_TRIGGER_ZERO]"
  let ?st = "\<lparr>stage = 0, matches = ?ms\<rparr>"
  have h1: "stages (trigger_of [?ms]) = ?st # []"
    by code_simp
  have h2: "match_on 16 SR_TRIGGER_ZERO \<in> set (matches ?st)"
    by simp
  have h3: "atoi (name (channel (match_on 16 SR_TRIGGER_ZERO))) = Some 16"
    by code_simp
  have h4: "(16::int) < 0 \<or> 16 \<le> (16::int)"
    by simp
  have h5: "\<forall>y\<in>set (matches ?st). atoi (name (channel y)) \<noteq> None"
    by code_simp
  from decode_trigger_chan_no_assert [OF h1 h2 h3 h4 h5] h1 h3 show ?thesis
    by simp
qed

text \<open>
  C5, as stated: a match pair sets the bit of its channel index. The decoder takes the
  channel number from the channel's name. A rising match on the channel with index 3
  that is named \<open>CLK\<close> sets bit 0 of the rise mask, since \<^verbatim>\<open>atoi\<close> reads the name
  as 0; bit 3 stays clear.
\<close>

theorem decode_trigger_index_counterexample:
  "index \<lparr>index = 3, enabled = True, name = ''CLK''\<rparr> = 3
   \<and> masks_of (decode_trigger (Some (trigger_of
        [[\<lparr>channel = \<lparr>index = 3, enabled = True, name = ''CLK''\<rparr>,
           match = SR_TRIGGER_RISING\<rparr>]])))
     = Some \<lparr>low_mask = 0, high_mask = 0, rise_mask = 1, fall_mask = 0\<rparr>"
  by code_simp

text \<open>
  C5, amended. The channel number \<open>c\<close> of a match pair is the value of \<^verbatim>\<open>atoi\<close> on
  the name of its channel; the index of the channel is not read, and for the channels as
  scan names them the two agree. For a match whose channel number is in \<open>[0,16)\<close>, one
  pass of the loop body ORs the value \<^verbatim>\<open>1<<c\<close>, which has exactly bit \<open>c\<close> set,
  into the low mask alone for \<^verbatim>\<open>SR_TRIGGER_ZERO\<close>, into the high mask alone for
  \<^verbatim>\<open>SR_TRIGGER_ONE\<close>, into the rise mask alone for \<^verbatim>\<open>SR_TRIGGER_RISING\<close>, into
  the fall mask alone for \<^verbatim>\<open>SR_TRIGGER_FALLING\<close>, and into both the rise and the
  fall mask, and neither of the other two, for \<^verbatim>\<open>SR_TRIGGER_EDGE\<close>. For a trigger
  whose first stage has all its channel numbers in range, every match pair of the first
  stage has its bit set in the resulting mask of its kind; when the trigger has that one
  stage only, the masks hold no other bits. The trigger of one stage
  \<open>{channel named 3: rising, channel named 5: zero}\<close> yields low = 32, high = 0,
  rise = 8, fall = 0.
\<close>

theorem decode_trigger_name_kinds:
  assumes "atoi (name ch) = Some c" and "0 \<le> c" and "c < 16"
    and "stages t = st # rest" and "list_all chan_ok (matches st)"
  shows "fst (decode_match \<lparr>channel = ch, match = SR_TRIGGER_ZERO\<rparr> m)
           = Inr (m\<lparr>low_mask := low_mask m OR push_bit (nat c) 1\<rparr>)
       \<and> fst (decode_match \<lparr>channel = ch, match = SR_TRIGGER_ONE\<rparr> m)
           = Inr (m\<lparr>high_mask := high_mask m OR push_bit (nat c) 1\<rparr>)
       \<and> fst (decode_match \<lparr>channel = ch, match = SR_TRIGGER_RISING\<rparr> m)
           = Inr (m\<lparr>rise_mask := rise_mask m OR push_bit (nat c) 1\<rparr>)
       \<and> fst (decode_match \<lparr>channel = ch, match = SR_TRIGGER_FALLING\<rparr> m)
           = Inr (m\<lparr>fall_mask := fall_mask m OR push_bit (nat c) 1\<rparr>)
       \<and> fst (decode_match \<lparr>channel = ch, match = SR_TRIGGER_EDGE\<rparr> m)
           = Inr (m\<lparr>rise_mask := rise_mask m OR push_bit (nat c) 1,
                    fall_mask := fall_mask m OR push_bit (nat c) 1\<rparr>)
       \<and> (\<forall>n. bit (push_bit (nat c) (1::cint)) n \<longleftrightarrow> n = nat c)
       \<and> (\<forall>i k. decode_match \<lparr>channel = ch\<lparr>index := i\<rparr>, match = k\<rparr> m
                  = decode_match \<lparr>channel = ch, match = k\<rparr> m)
       \<and> (\<forall>j\<in>set [0..NUM_LOGIC_CHAN - 1].
             atoi (name (logic_channel j)) = Some (index (logic_channel j)))
       \<and> (\<exists>M. masks_of (decode_trigger (Some t)) = Some M
            \<and> (\<forall>x\<in>set (matches st).
                  match x = SR_TRIGGER_ZERO \<longrightarrow> bit (low_mask M) (chan_no_of x))
            \<and> (\<forall>x\<in>set (matches st).
                  match x = SR_TRIGGER_ONE \<longrightarrow> bit (high_mask M) (chan_no_of x))
            \<and> (\<forall>x\<in>set (matches st).
                  match x = SR_TRIGGER_RISING \<or> match x = SR_TRIGGER_EDGE
                  \<longrightarrow> bit (rise_mask M) (chan_no_of x))
            \<and> (\<forall>x\<in>set (matches st).
                  match x = SR_TRIGGER_FALLING \<or> match x = SR_TRIGGER_EDGE
                  \<longrightarrow> bit (fall_mask M) (chan_no_of x))
            \<and> (rest = [] \<longrightarrow>
                  (\<forall>n. bit (low_mask M) n \<longleftrightarrow>
                     (\<exists>x\<in>set (matches st). match x = SR_TRIGGER_ZERO \<and> chan_no_of x = n))
                  \<and> (\<forall>n. bit (high_mask M) n \<longleftrightarrow>
                     (\<exists>x\<in>set (matches st). match x = SR_TRIGGER_ONE \<and> chan_no_of x = n))
                  \<and> (\<forall>n. bit (rise_mask M) n \<longleftrightarrow>
                     (\<exists>x\<in>set (matches st).
                        (match x = SR_TRIGGER_RISING \<or> match x = SR_TRIGGER_EDGE)
                        \<and> chan_no_of x = n))
                  \<and> (\<forall>n. bit (fall_mask M) n \<longleftrightarrow>
                     (\<exists>x\<in>set (matches st).
                        (match x = SR_TRIGGER_FALLING \<or> match x = SR_TRIGGER_EDGE)
                        \<and> chan_no_of x = n))))
       \<and> masks_of (decode_trigger (Some (trigger_of
            [[match_on 3 SR_TRIGGER_RISING, match_on 5 SR_TRIGGER_ZERO]])))
           = Some \<lparr>low_mask = 32, high_mask = 0, rise_mask = 8, fall_mask = 0\<rparr>"
proof -
  from assms(2,3) have "nat c < 16"
    by simp
  then have b: "\<forall>n. bit (push_bit (nat c) (1::cint)) n \<longleftrightarrow> n = nat c"
    by (simp add: bit_chan_pow)
  have s: "masks_of (decode_trigger (Some (trigger_of
            [[match_on 3 SR_TRIGGER_RISING, match_on 5 SR_TRIGGER_ZERO]])))
           = Some \<lparr>low_mask = 32, high_mask = 0, rise_mask = 8, fall_mask = 0\<rparr>"
    by code_simp
  note k = decode_match_in_range [OF assms(1-3)]
  have z: "fst (decode_match \<lparr>channel = ch, match = SR_TRIGGER_ZERO\<rparr> m)
           = Inr (m\<lparr>low_mask := low_mask m OR push_bit (nat c) 1\<rparr>)"
    by (simp add: k)
  have one: "fst (decode_match \<lparr>channel = ch, match = SR_TRIGGER_ONE\<rparr> m)
           = Inr (m\<lparr>high_mask := high_mask m OR push_bit (nat c) 1\<rparr>)"
    by (simp add: k)
  have ri: "fst (decode_match \<lparr>channel = ch, match = SR_TRIGGER_RISING\<rparr> m)
           = Inr (m\<lparr>rise_mask := rise_mask m OR push_bit (nat c) 1\<rparr>)"
    by (simp add: k)
  have fa: "fst (decode_match \<lparr>channel = ch, match = SR_TRIGGER_FALLING\<rparr> m)
           = Inr (m\<lparr>fall_mask := fall_mask m OR push_bit (nat c) 1\<rparr>)"
    by (simp add: k)
  have ed: "fst (decode_match \<lparr>channel = ch, match = SR_TRIGGER_EDGE\<rparr> m)
           = Inr (m\<lparr>rise_mask := rise_mask m OR push_bit (nat c) 1,
                    fall_mask := fall_mask m OR push_bit (nat c) 1\<rparr>)"
    by (simp add: k)
  have ix: "\<forall>i k. decode_match \<lparr>channel = ch\<lparr>index := i\<rparr>, match = k\<rparr> m
                  = decode_match \<lparr>channel = ch, match = k\<rparr> m"
    by (simp add: decode_match_index)
  have sc: "\<forall>j\<in>set [0..NUM_LOGIC_CHAN - 1].
             atoi (name (logic_channel j)) = Some (index (logic_channel j))"
    using atoi_logic_channel by (simp add: logic_channel_def)
  from decode_trigger_bits [OF assms(4,5)] obtain M
    where M: "masks_of (decode_trigger (Some t)) = Some M"
      and l: "\<forall>n. bit (low_mask M) n \<longleftrightarrow>
            (\<exists>x\<in>set (matches st). match x = SR_TRIGGER_ZERO \<and> chan_no_of x = n)"
      and h: "\<forall>n. bit (high_mask M) n \<longleftrightarrow>
            (\<exists>x\<in>set (matches st). match x = SR_TRIGGER_ONE \<and> chan_no_of x = n)"
      and r: "\<forall>n. bit (rise_mask M) n \<longleftrightarrow>
            (\<exists>x\<in>set (matches st).
               (match x = SR_TRIGGER_RISING \<or> match x = SR_TRIGGER_EDGE) \<and> chan_no_of x = n)"
      and f: "\<forall>n. bit (fall_mask M) n \<longleftrightarrow>
            (\<exists>x\<in>set (matches st).
               (match x = SR_TRIGGER_FALLING \<or> match x = SR_TRIGGER_EDGE) \<and> chan_no_of x = n)"
    by blast
  have l1: "\<forall>x\<in>set (matches st). match x = SR_TRIGGER_ZERO \<longrightarrow> bit (low_mask M) (chan_no_of x)"
    using l by blast
  have h1: "\<forall>x\<in>set (matches st). match x = SR_TRIGGER_ONE \<longrightarrow> bit (high_mask M) (chan_no_of x)"
    using h by blast
  have r1: "\<forall>x\<in>set (matches st). match x = SR_TRIGGER_RISING \<or> match x = SR_TRIGGER_EDGE
                  \<longrightarrow> bit (rise_mask M) (chan_no_of x)"
    using r by blast
  have f1: "\<forall>x\<in>set (matches st). match x = SR_TRIGGER_FALLING \<or> match x = SR_TRIGGER_EDGE
                  \<longrightarrow> bit (fall_mask M) (chan_no_of x)"
    using f by blast
  from M l1 h1 r1 f1 l h r f
  have tr: "\<exists>M. masks_of (decode_trigger (Some t)) = Some M
            \<and> (\<forall>x\<in>set (matches st).
                  match x = SR_TRIGGER_ZERO \<longrightarrow> bit (low_mask M) (chan_no_of x))
            \<and> (\<forall>x\<in>set (matches st).
                  match x = SR_TRIGGER_ONE \<longrightarrow> bit (high_mask M) (chan_no_of x))
            \<and> (\<forall>x\<in>set (matches st).
                  match x = SR_TRIGGER_RISING \<or> match x = SR_TRIGGER_EDGE
                  \<longrightarrow> bit (rise_mask M) (chan_no_of x))
            \<and> (\<forall>x\<in>set (matches st).
                  match x = SR_TRIGGER_FALLING \<or> match x = SR_TRIGGER_EDGE
                  \<longrightarrow> bit (fall_mask M) (chan_no_of x))
            \<and> (rest = [] \<longrightarrow>
                  (\<forall>n. bit (low_mask M) n \<longleftrightarrow>
                     (\<exists>x\<in>set (matches st). match x = SR_TRIGGER_ZERO \<and> chan_no_of x = n))
                  \<and> (\<forall>n. bit (high_mask M) n \<longleftrightarrow>
                     (\<exists>x\<in>set (matches st). match x = SR_TRIGGER_ONE \<and> chan_no_of x = n))
                  \<and> (\<forall>n. bit (rise_mask M) n \<longleftrightarrow>
                     (\<exists>x\<in>set (matches st).
                        (match x = SR_TRIGGER_RISING \<or> match x = SR_TRIGGER_EDGE)
                        \<and> chan_no_of x = n))
                  \<and> (\<forall>n. bit (fall_mask M) n \<longleftrightarrow>
                     (\<exists>x\<in>set (matches st).
                        (match x = SR_TRIGGER_FALLING \<or> match x = SR_TRIGGER_EDGE)
                        \<and> chan_no_of x = n)))"
    by (intro exI [of _ M] conjI impI)
  from z one ri fa ed b ix sc tr s show ?thesis
    by (intro conjI)
qed

text \<open>
  The amended C5 on channel 7, and on the stage \<open>{channel 3: rising, channel 5: zero}\<close>
  alone and followed by a second stage.
\<close>

theorem decode_trigger_name_kinds_witness:
  "atoi (name (logic_channel 7)) = Some 7
   \<and> list_all chan_ok [match_on 3 SR_TRIGGER_RISING, match_on 5 SR_TRIGGER_ZERO]
   \<and> fst (decode_match \<lparr>channel = logic_channel 7, match = SR_TRIGGER_EDGE\<rparr> zero_masks)
       = Inr \<lparr>low_mask = 0, high_mask = 0, rise_mask = 128, fall_mask = 128\<rparr>
   \<and> fst (decode_match \<lparr>channel = logic_channel 7, match = SR_TRIGGER_ZERO\<rparr> zero_masks)
       = Inr \<lparr>low_mask = 128, high_mask = 0, rise_mask = 0, fall_mask = 0\<rparr>
   \<and> masks_of (decode_trigger (Some (trigger_of
        [[match_on 3 SR_TRIGGER_RISING, match_on 5 SR_TRIGGER_ZERO], [match_on 1 SR_TRIGGER_ONE]])))
       = Some \<lparr>low_mask = 32, high_mask = 0, rise_mask = 8, fall_mask = 0\<rparr>
   \<and> masks_of (decode_trigger (Some (trigger_of
        [[match_on 3 SR_TRIGGER_RISING, match_on 5 SR_TRIGGER_ZERO]])))
       = Some \<lparr>low_mask = 32, high_mask = 0, rise_mask = 8, fall_mask = 0\<rparr>"
proof -
  let ?ms = "[match_on 3 SR_TRIGGER_RISING, match_on 5 SR_TRIGGER_ZERO]"
  have h1: "atoi (name (logic_channel 7)) = Some 7"
    by code_simp
  have h2: "(0::int) \<le> 7" and h3: "(7::int) < 16"
    by simp_all
  have h4: "stages (trigger_of [?ms]) = \<lparr>stage = 0, matches = ?ms\<rparr> # []"
    by code_simp
  have "list_all chan_ok ?ms"
    by code_simp
  then have h5: "list_all chan_ok (matches \<lparr>stage = 0, matches = ?ms\<rparr>)"
    by simp
  have v: "masks_of (decode_trigger (Some (trigger_of [?ms, [match_on 1 SR_TRIGGER_ONE]])))
       = Some \<lparr>low_mask = 32, high_mask = 0, rise_mask = 8, fall_mask = 0\<rparr>"
    by code_simp
  from decode_trigger_name_kinds [OF h1 h2 h3 h4 h5, of zero_masks] h1 h5 v show ?thesis
    by (simp add: zero_masks_def)
qed

text \<open>
  C9. For triggers of one stage, the masks that the decoder produces (or the fact
  that it produces none) do not depend on the order of the matches within the stage.
\<close>

theorem decode_trigger_permutation:
  assumes "stages t = [st]" and "stages t' = [st']"
    and "mset (matches st) = mset (matches st')"
  shows "masks_of (decode_trigger (Some t)) = masks_of (decode_trigger (Some t'))"
proof -
  from assms(3) have "set (matches st) = set (matches st')"
    by (rule mset_eq_setD)
  then have ok: "list_all chan_ok (matches st) = list_all chan_ok (matches st')"
    by (simp add: list_all_iff)
  have "fold apply_match (matches st) = fold apply_match (matches st')"
    by (rule fold_multiset_equiv [OF _ assms(3)]) (auto simp: fun_eq_iff apply_match_commute)
  with ok assms(1,2) show ?thesis
    by (simp add: masks_of_decode_trigger)
qed

text \<open>
  C9 on \<open>{channel 3: rising, channel 5: zero}\<close> in both orders.
\<close>

theorem decode_trigger_permutation_witness:
  "mset [match_on 3 SR_TRIGGER_RISING, match_on 5 SR_TRIGGER_ZERO]
     = mset [match_on 5 SR_TRIGGER_ZERO, match_on 3 SR_TRIGGER_RISING]
   \<and> masks_of (decode_trigger (Some (trigger_of [[match_on 5 SR_TRIGGER_ZERO, match_on 3 SR_TRIGGER_RISING]])))
     = Some \<lparr>low_mask = 32, high_mask = 0, rise_mask = 8, fall_mask = 0\<rparr>"
proof -
  let ?a = "[match_on 3 SR_TRIGGER_RISING, match_on 5 SR_TRIGGER_ZERO]"
  let ?b = "[match_on 5 SR_TRIGGER_ZERO, match_on 3 SR_TRIGGER_RISING]"
  have h1: "stages (trigger_of [?a]) = [\<lparr>stage = 0, matches = ?a\<rparr>]"
    by code_simp
  have h2: "stages (trigger_of [?b]) = [\<lparr>stage = 0, matches = ?b\<rparr>]"
    by code_simp
  have h3: "mset (matches \<lparr>stage = 0, matches = ?a\<rparr>) = mset (matches \<lparr>stage = 0, matches = ?b\<rparr>)"
    by simp
  have v: "masks_of (decode_trigger (Some (trigger_of [?a])))
           = Some \<lparr>low_mask = 32, high_mask = 0, rise_mask = 8, fall_mask = 0\<rparr>"
    by code_simp
  from decode_trigger_permutation [OF h1 h2 h3] v h3 show ?thesis
    by simp
qed

section \<open>Starting an acquisition\<close>

text \<open>
  C2, as stated: with a sample rate of zero, start fails with an error and makes no
  call into the SDK. On an open device with rate zero and no trigger, the acquisition
  mode is set before the assertion on the rate fails, and the failure is an abort, not a
  returned error.
\<close>

theorem start_zero_samplerate_counterexample:
  "dev_acquisition_start (sdk_const True (0, 0, 0) DwfStateReady) (Some (sdi_with True 0)) None
   = (Inl Assert_samplerate,
      [Log SPEW ''%s(), entry'', Session_source_add 100, Session_send_df_header,
       Log SPEW ''trigger is NULL'',
       Dwf (FDwfDigitalInAcquisitionModeSet 1 acqmodeRecord) True])"
  by code_simp

text \<open>
  C2, amended. On an open device whose sample rate is zero, start never returns: it
  ends in the crash of the trigger decoder or, when the trigger decodes, in the failed
  assertion on the sample rate. The divider is never computed or set: the only SDK
  call made before the assertion is the one that sets the acquisition mode, and none is
  made when the decoder crashes.
\<close>

theorem start_zero_samplerate:
  assumes "priv sdi = Some devc" and "is_opened devc" and "cur_samplerate devc = 0"
  shows "fst (dev_acquisition_start sdk (Some sdi) trigger)
           = (case fst (decode_trigger trigger) of
                Inl e \<Rightarrow> Inl e | Inr m \<Rightarrow> Inl Assert_samplerate)
       \<and> dwf_calls (snd (dev_acquisition_start sdk (Some sdi) trigger))
           = (case fst (decode_trigger trigger) of
                Inl e \<Rightarrow> []
              | Inr m \<Rightarrow> [FDwfDigitalInAcquisitionModeSet (hdwf devc) acqmodeRecord])"
proof (cases "decode_trigger trigger")
  case (Pair r ev)
  with dwf_calls_decode_trigger [of trigger] have ev: "dwf_calls ev = []"
    by simp
  show ?thesis
    using assms Pair ev
    by (cases r)
      (simp_all add: dev_acquisition_start_def digilent_analogdiscovery2_start_def
        dwf_calls_append call_def)
qed

text \<open>
  The amended C2 on an open device with rate zero and no trigger.
\<close>

theorem start_zero_samplerate_witness:
  "priv (sdi_with True 0)
     = Some \<lparr>enum_idx = 0, is_opened = True, hdwf = 1, cur_samplerate = 0\<rparr>
   \<and> fst (dev_acquisition_start (sdk_const True (0, 0, 0) DwfStateReady)
            (Some (sdi_with True 0)) None) = Inl Assert_samplerate
   \<and> dwf_calls (snd (dev_acquisition_start (sdk_const True (0, 0, 0) DwfStateReady)
                       (Some (sdi_with True 0)) None))
     = [FDwfDigitalInAcquisitionModeSet 1 acqmodeRecord]"
proof -
  let ?devc = "\<lparr>enum_idx = 0, is_opened = True, hdwf = 1, cur_samplerate = 0\<rparr>"
  have h1: "priv (sdi_with True 0) = Some ?devc"
    by (simp add: sdi_with_def)
  have h2: "is_opened ?devc" and h3: "cur_samplerate ?devc = 0"
    by simp_all
  have d: "fst (decode_trigger None) = Inr zero_masks"
    by (simp add: decode_trigger_def)
  from start_zero_samplerate [OF h1 h2 h3, of "sdk_const True (0, 0, 0) DwfStateReady" None] h1 d
  show ?thesis
    by simp
qed

text \<open>
  C3, as stated: start stops at the first SDK call that fails and reports a device
  error. With an SDK whose every call fails, start still makes all seven calls and
  \<^verbatim>\<open>dev_acquisition_start\<close> returns \<^verbatim>\<open>SR_OK\<close>.
\<close>

theorem start_no_short_circuit_counterexample:
  "dev_acquisition_start (sdk_const False (0, 0, 0) DwfStateReady) (Some (sdi_with True 100)) None
   = (Inr SR_OK,
      [Log SPEW ''%s(), entry'', Session_source_add 100, Session_send_df_header,
       Log SPEW ''trigger is NULL'',
       Dwf (FDwfDigitalInAcquisitionModeSet 1 acqmodeRecord) False,
       Dwf (FDwfDigitalInDividerSet 1 1000000) False,
       Dwf (FDwfDigitalInSampleFormatSet 1 16) False,
       Dwf (FDwfDigitalInTriggerPositionSet 1 100000) False,
       Dwf (FDwfDigitalInTriggerSourceSet 1 trigsrcDetectorDigitalIn) False,
       Dwf (FDwfDigitalInTriggerSet 1 0 0 0 0) False,
       Dwf (FDwfDigitalInConfigure 1 True True) False])"
  by code_simp

text \<open>
  C3, amended. On an open device with a non-zero sample rate and a trigger that
  decodes, start makes the seven SDK calls in this order, whatever each of them
  returns: acquisition mode record, divider \<open>100000000 / cur_samplerate\<close>, sample
  format 16, trigger position 100000, trigger source digital-in detector, the four
  trigger masks, configure with both flags true; and \<^verbatim>\<open>dev_acquisition_start\<close>
  returns \<^verbatim>\<open>SR_OK\<close>.
\<close>

theorem start_call_sequence:
  assumes "priv sdi = Some devc" and "is_opened devc" and "cur_samplerate devc \<noteq> 0"
    and "masks_of (decode_trigger trigger) = Some m"
  shows "fst (dev_acquisition_start sdk (Some sdi) trigger) = Inr SR_OK
       \<and> dwf_calls (snd (dev_acquisition_start sdk (Some sdi) trigger))
           = [FDwfDigitalInAcquisitionModeSet (hdwf devc) acqmodeRecord,
              FDwfDigitalInDividerSet (hdwf devc) (ucast (100000000 div cur_samplerate devc)),
              FDwfDigitalInSampleFormatSet (hdwf devc) 16,
              FDwfDigitalInTriggerPositionSet (hdwf devc) 100000,
              FDwfDigitalInTriggerSourceSet (hdwf devc) trigsrcDetectorDigitalIn,
              FDwfDigitalInTriggerSet (hdwf devc)
                (low_mask m) (high_mask m) (rise_mask m) (fall_mask m),
              FDwfDigitalInConfigure (hdwf devc) True True]"
proof (cases "decode_trigger trigger")
  case (Pair r ev)
  with dwf_calls_decode_trigger [of trigger] have ev: "dwf_calls ev = []"
    by simp
  from Pair assms(4) have r: "r = Inr m"
    by (cases r) (simp_all add: masks_of_def)
  show ?thesis
    using assms(1-3) Pair ev r
    by (simp add: dev_acquisition_start_def digilent_analogdiscovery2_start_def
        dwf_calls_append call_def)
qed

text \<open>
  The amended C3 at 200 Hz with the trigger \<open>{channel 3: rising}\<close> and an SDK whose
  every call fails.
\<close>

theorem start_call_sequence_witness:
  "priv (sdi_with True 200)
     = Some \<lparr>enum_idx = 0, is_opened = True, hdwf = 1, cur_samplerate = 200\<rparr>
   \<and> masks_of (decode_trigger (Some (trigger_of [[match_on 3 SR_TRIGGER_RISING]])))
     = Some \<lparr>low_mask = 0, high_mask = 0, rise_mask = 8, fall_mask = 0\<rparr>
   \<and> fst (dev_acquisition_start (sdk_const False (0, 0, 0) DwfStateReady)
            (Some (sdi_with True 200)) (Some (trigger_of [[match_on 3 SR_TRIGGER_RISING]])))
     = Inr SR_OK
   \<and> dwf_calls (snd (dev_acquisition_start (sdk_const False (0, 0, 0) DwfStateReady)
            (Some (sdi_with True 200)) (Some (trigger_of [[match_on 3 SR_TRIGGER_RISING]]))))
     = [FDwfDigitalInAcquisitionModeSet 1 acqmodeRecord,
        FDwfDigitalInDividerSet 1 500000,
        FDwfDigitalInSampleFormatSet 1 16,
        FDwfDigitalInTriggerPositionSet 1 100000,
        FDwfDigitalInTriggerSourceSet 1 trigsrcDetectorDigitalIn,
        FDwfDigitalInTriggerSet 1 0 0 8 0,
        FDwfDigitalInConfigure 1 True True]"
proof -
  let ?devc = "\<lparr>enum_idx = 0, is_opened = True, hdwf = 1, cur_samplerate = 200\<rparr>"
  let ?m = "\<lparr>low_mask = 0, high_mask = 0, rise_mask = 8, fall_mask = 0\<rparr>"
  have h1: "priv (sdi_with True 200) = Some ?devc"
    by (simp add: sdi_with_def)
  have h2: "is_opened ?devc" and h3: "cur_samplerate ?devc \<noteq> 0"
    by simp_all
  have h4: "masks_of (decode_trigger (Some (trigger_of [[match_on 3 SR_TRIGGER_RISING]]))) = Some ?m"
    by code_simp
  have dv: "(ucast (100000000 div (200 :: 64 word)) :: 32 word) = 500000"
    by code_simp
  from start_call_sequence [OF h1 h2 h3 h4, of "sdk_const False (0, 0, 0) DwfStateReady"] h1 h4 dv
  show ?thesis
    by simp
qed

section \<open>The data callback\<close>

text \<open>
  C6. Under the contract that the specification puts on the device buffer depth, that
  the byte count, twice the number of available samples, does not exceed the capacity of
  the array \<^verbatim>\<open>payload\<close> (1048576 bytes): when no sample is lost or corrupt, the number
  of available samples is positive and the state is none of Config, Armed, Prefill, the
  callback returns \<^verbatim>\<open>TRUE\<close> and sends exactly one logic packet, whose length is twice
  the number of available samples and whose unit size is 2.
\<close>

theorem receive_data_packet:
  assumes "priv sdi = Some devc"
    and "dwf_status_record sdk (hdwf devc) = (cAvail, 0, 0)"
    and "0 < sint cAvail"
    and "sint cAvail * 2 \<le> payload_size"
    and "dwf_status sdk (hdwf devc) \<notin> {DwfStateConfig, DwfStateArmed, DwfStatePrefill}"
  shows "fst (digilent_analogdiscovery2_receive_data sdk (Some sdi)) = Inr True
       \<and> (\<exists>p. packets (snd (digilent_analogdiscovery2_receive_data sdk (Some sdi))) = [p]
              \<and> uint (length_bytes p) = sint cAvail * 2 \<and> unitsize p = 2)"
proof -
  from assms(3) have nz: "cAvail \<noteq> 0"
    by auto
  from assms(3,4) have rng: "- (2 ^ 31) \<le> sint cAvail * 2 \<and> sint cAvail * 2 < 2 ^ 31"
    by (simp add: payload_size_def)
  from assms(3,4) have len: "uint (word_of_int (sint cAvail * 2) :: 64 word) = sint cAvail * 2"
    by (intro uint_length_bytes) simp_all
  show ?thesis
    using assms(1,2,4,5) nz rng len
    by (simp add: digilent_analogdiscovery2_receive_data_def Let_def call_def packets_append)
qed

text \<open>
  C6 with 512 samples available in state Done: one packet of 1024 bytes.
\<close>

theorem receive_data_packet_witness:
  "priv (sdi_with True 100)
     = Some \<lparr>enum_idx = 0, is_opened = True, hdwf = 1, cur_samplerate = 100\<rparr>
   \<and> sint (512 :: cint) * 2 \<le> payload_size
   \<and> fst (digilent_analogdiscovery2_receive_data (sdk_const True (512, 0, 0) DwfStateDone)
            (Some (sdi_with True 100))) = Inr True
   \<and> packets (snd (digilent_analogdiscovery2_receive_data
                     (sdk_const True (512, 0, 0) DwfStateDone) (Some (sdi_with True 100))))
     = [\<lparr>length_bytes = 1024, unitsize = 2\<rparr>]"
proof -
  let ?devc = "\<lparr>enum_idx = 0, is_opened = True, hdwf = 1, cur_samplerate = 100\<rparr>"
  let ?sdk = "sdk_const True (512, 0, 0) DwfStateDone"
  have h1: "priv (sdi_with True 100) = Some ?devc"
    by (simp add: sdi_with_def)
  have h2: "dwf_status_record ?sdk (hdwf ?devc) = (512, 0, 0)"
    by (simp add: sdk_const_def)
  have h3: "0 < sint (512 :: cint)"
    by simp
  have h4: "sint (512 :: cint) * 2 \<le> payload_size"
    by (simp add: payload_size_def)
  have h5: "dwf_status ?sdk (hdwf ?devc) \<notin> {DwfStateConfig, DwfStateArmed, DwfStatePrefill}"
    by (simp add: sdk_const_def)
  have v: "packets (snd (digilent_analogdiscovery2_receive_data ?sdk (Some (sdi_with True 100))))
           = [\<lparr>length_bytes = 1024, unitsize = 2\<rparr>]"
    by code_simp
  from receive_data_packet [OF h1 h2 h3 h4 h5] h1 h4 v show ?thesis
    by simp
qed

text \<open>
  C7, as stated: the callback returns \<^verbatim>\<open>TRUE\<close> for every device status. With
  600000 samples available it asks the SDK for more bytes than \<^verbatim>\<open>payload\<close> holds
  and does not return.
\<close>

theorem receive_data_continue_counterexample:
  "fst (digilent_analogdiscovery2_receive_data (sdk_const True (600000, 0, 0) DwfStateDone)
          (Some (sdi_with True 100))) = Inl Payload_overrun"
  by code_simp

text \<open>
  C7, amended. The callback never returns \<^verbatim>\<open>FALSE\<close>. It returns \<^verbatim>\<open>TRUE\<close>
  without a device instance or a device context; when samples were lost or corrupt,
  after logging an error and without sending a packet; when no sample is available or
  the state is one of Config, Armed, Prefill, without sending a packet; and in every
  other case in which the byte count, twice the number of available samples, is
  representable as an \<^verbatim>\<open>int\<close> and at most the size of \<^verbatim>\<open>payload\<close>.
\<close>

theorem receive_data_continue:
  assumes "priv sdi = Some devc"
    and "dwf_status_record sdk (hdwf devc) = (cAvail, cLost, cCorrupt)"
  shows "fst (digilent_analogdiscovery2_receive_data sdk cb_data) \<noteq> Inr False
       \<and> fst (digilent_analogdiscovery2_receive_data sdk None) = Inr True
       \<and> fst (digilent_analogdiscovery2_receive_data sdk (Some (sdi\<lparr>priv := None\<rparr>))) = Inr True
       \<and> (cLost \<noteq> 0 \<or> cCorrupt \<noteq> 0 \<longrightarrow>
            fst (digilent_analogdiscovery2_receive_data sdk (Some sdi)) = Inr True
            \<and> packets (snd (digilent_analogdiscovery2_receive_data sdk (Some sdi))) = []
            \<and> Log ERR ''_recevice_data() - samples lost=%d, samples corrupt=%d''
                \<in> set (snd (digilent_analogdiscovery2_receive_data sdk (Some sdi))))
       \<and> (cAvail = 0 \<or> dwf_status sdk (hdwf devc) \<in> {DwfStateConfig, DwfStateArmed, DwfStatePrefill} \<longrightarrow>
            fst (digilent_analogdiscovery2_receive_data sdk (Some sdi)) = Inr True
            \<and> packets (snd (digilent_analogdiscovery2_receive_data sdk (Some sdi))) = [])
       \<and> (- (2 ^ 31) \<le> sint cAvail * 2 \<and> sint cAvail * 2 \<le> payload_size \<longrightarrow>
            fst (digilent_analogdiscovery2_receive_data sdk (Some sdi)) = Inr True)"
proof -
  have a: "fst (digilent_analogdiscovery2_receive_data sdk cb_data) \<noteq> Inr False"
    by (auto simp: digilent_analogdiscovery2_receive_data_def Let_def
        split: option.splits prod.splits)
  have b: "fst (digilent_analogdiscovery2_receive_data sdk None) = Inr True"
    by (simp add: digilent_analogdiscovery2_receive_data_def)
  have c: "fst (digilent_analogdiscovery2_receive_data sdk (Some (sdi\<lparr>priv := None\<rparr>))) = Inr True"
    by (simp add: digilent_analogdiscovery2_receive_data_def)
  have d: "cLost \<noteq> 0 \<or> cCorrupt \<noteq> 0 \<longrightarrow>
            fst (digilent_analogdiscovery2_receive_data sdk (Some sdi)) = Inr True
            \<and> packets (snd (digilent_analogdiscovery2_receive_data sdk (Some sdi))) = []
            \<and> Log ERR ''_recevice_data() - samples lost=%d, samples corrupt=%d''
                \<in> set (snd (digilent_analogdiscovery2_receive_data sdk (Some sdi)))"
    using assms
    by (auto simp: digilent_analogdiscovery2_receive_data_def Let_def call_def)
  have e: "cAvail = 0 \<or> dwf_status sdk (hdwf devc) \<in> {DwfStateConfig, DwfStateArmed, DwfStatePrefill} \<longrightarrow>
            fst (digilent_analogdiscovery2_receive_data sdk (Some sdi)) = Inr True
            \<and> packets (snd (digilent_analogdiscovery2_receive_data sdk (Some sdi))) = []"
    using assms
    by (auto simp: digilent_analogdiscovery2_receive_data_def Let_def call_def)
  have f: "- (2 ^ 31) \<le> sint cAvail * 2 \<and> sint cAvail * 2 \<le> payload_size \<longrightarrow>
            fst (digilent_analogdiscovery2_receive_data sdk (Some sdi)) = Inr True"
    using assms
    by (auto simp: digilent_analogdiscovery2_receive_data_def Let_def payload_size_def)
  from a b c d e f show ?thesis
    by blast
qed

text \<open>
  The amended C7 on three statuses: nothing available in state Armed; two samples
  lost; 512 samples available in state Done.
\<close>

theorem receive_data_continue_witness:
  "fst (digilent_analogdiscovery2_receive_data (sdk_const True (0, 0, 0) DwfStateArmed)
          (Some (sdi_with True 100))) = Inr True
   \<and> packets (snd (digilent_analogdiscovery2_receive_data
                     (sdk_const True (0, 0, 0) DwfStateArmed) (Some (sdi_with True 100)))) = []
   \<and> fst (digilent_analogdiscovery2_receive_data (sdk_const True (512, 2, 0) DwfStateDone)
          (Some (sdi_with True 100))) = Inr True
   \<and> packets (snd (digilent_analogdiscovery2_receive_data
                     (sdk_const True (512, 2, 0) DwfStateDone) (Some (sdi_with True 100)))) = []
   \<and> fst (digilent_analogdiscovery2_receive_data (sdk_const True (512, 0, 0) DwfStateDone)
          (Some (sdi_with True 100))) = Inr True"
proof -
  let ?devc = "\<lparr>enum_idx = 0, is_opened = True, hdwf = 1, cur_samplerate = 100\<rparr>"
  have h1: "priv (sdi_with True 100) = Some ?devc"
    by (simp add: sdi_with_def)
  have armed: "dwf_status_record (sdk_const True (0, 0, 0) DwfStateArmed) (hdwf ?devc) = (0, 0, 0)"
    by (simp add: sdk_const_def)
  have lost: "dwf_status_record (sdk_const True (512, 2, 0) DwfStateDone) (hdwf ?devc) = (512, 2, 0)"
    by (simp add: sdk_const_def)
  have full: "dwf_status_record (sdk_const True (512, 0, 0) DwfStateDone) (hdwf ?devc) = (512, 0, 0)"
    by (simp add: sdk_const_def)
  have fits: "- (2 ^ 31) \<le> sint (512 :: cint) * 2 \<and> sint (512 :: cint) * 2 \<le> payload_size"
    by (simp add: payload_size_def)
  from receive_data_continue [OF h1 armed] receive_data_continue [OF h1 lost]
    receive_data_continue [OF h1 full] fits
  show ?thesis
    by simp
qed

section \<open>Opening a device\<close>

text \<open>
  C8. Opening a device instance whose context is already open returns the error
  \<^verbatim>\<open>SR_ERR_BUG\<close> after logging that the device is already open, makes no SDK call,
  and leaves the device instance, so in particular its open flag and its handle, as it
  was.
\<close>

theorem open_already_open:
  assumes "priv sdi = Some devc" and "is_opened devc"
  shows "digilent_analogdiscovery2_open sdk (Some sdi)
         = (Inr (SR_ERR_BUG, Some sdi), [Log ERR ''Device %d already open''])"
  using assms by (simp add: digilent_analogdiscovery2_open_def)

text \<open>
  C8 on an open device instance.
\<close>

theorem open_already_open_witness:
  "priv (sdi_with True 100)
     = Some \<lparr>enum_idx = 0, is_opened = True, hdwf = 1, cur_samplerate = 100\<rparr>
   \<and> digilent_analogdiscovery2_open (sdk_const True (0, 0, 0) DwfStateReady)
       (Some (sdi_with True 100))
     = (Inr (SR_ERR_BUG, Some (sdi_with True 100)), [Log ERR ''Device %d already open''])"
proof -
  let ?devc = "\<lparr>enum_idx = 0, is_opened = True, hdwf = 1, cur_samplerate = 100\<rparr>"
  have h1: "priv (sdi_with True 100) = Some ?devc"
    by (simp add: sdi_with_def)
  have h2: "is_opened ?devc"
    by simp
  from open_already_open [OF h1 h2] h1 show ?thesis
    by simp
qed

section \<open>The sample rate invariant\<close>

text \<open>
  C10. Every device instance that is reachable from scan by calls of config\_set, open,
  close, dev\_acquisition\_start and the data callback has a device context whose sample
  rate is one of 1, 10, 50, 100, 200 Hz. The rate is therefore never zero, and the
  assertion on the sample rate in start never fails on such an instance.
\<close>

theorem reachable_samplerate:
  assumes "reachable sdi"
  shows "\<exists>devc. priv sdi = Some devc
           \<and> cur_samplerate devc \<in> {1, 10, 50, 100, 200}
           \<and> cur_samplerate devc \<noteq> 0
           \<and> (\<forall>sdk trigger.
                 fst (digilent_analogdiscovery2_start sdk devc trigger) \<noteq> Inl Assert_samplerate)"
proof -
  from reachable_rate_ok [OF assms] obtain devc
    where p: "priv sdi = Some devc" and r: "cur_samplerate devc \<in> set samplerates"
    by (auto simp: rate_ok_def split: option.splits)
  from r have m: "cur_samplerate devc \<in> {1, 10, 50, 100, 200}"
    by (simp add: samplerates_def)
  then have nz: "cur_samplerate devc \<noteq> 0"
    by auto
  from p m nz start_no_assert [OF nz] show ?thesis
    by blast
qed

text \<open>
  C10 on the instance that scan returns, after the sample rate was set to 200 Hz.
\<close>

theorem reachable_samplerate_witness:
  "reachable ((scan_device (sdk_const True (0, 0, 0) DwfStateReady) 0)
                \<lparr>priv := Some \<lparr>enum_idx = 0, is_opened = False, hdwf = 0,
                                cur_samplerate = 200\<rparr>\<rparr>)
   \<and> (\<exists>devc. priv ((scan_device (sdk_const True (0, 0, 0) DwfStateReady) 0)
                \<lparr>priv := Some \<lparr>enum_idx = 0, is_opened = False, hdwf = 0,
                                cur_samplerate = 200\<rparr>\<rparr>) = Some devc
          \<and> cur_samplerate devc \<in> {1, 10, 50, 100, 200}
          \<and> cur_samplerate devc \<noteq> 0)"
proof -
  let ?sdk = "sdk_const True (0, 0, 0) DwfStateReady"
  let ?s0 = "scan_device ?sdk 0"
  let ?s1 = "?s0\<lparr>priv := Some \<lparr>enum_idx = 0, is_opened = False, hdwf = 0,
                                cur_samplerate = 200\<rparr>\<rparr>"
  have "digilent_analogdiscovery2_scan ?sdk = [?s0]"
    by code_simp
  then have r0: "reachable ?s0"
    by (intro reachable.scanned [of _ ?sdk]) simp
  have "api_step ?sdk (Api_config_set SR_CONF_SAMPLERATE 200) ?s0 = Some ?s1"
    by code_simp
  with r0 have r1: "reachable ?s1"
    by (rule reachable.stepped)
  from reachable_samplerate [OF r1] r1 show ?thesis
    by blast
qed

end
